theory Spec2Isabelle
  imports Complex_Main "HOL-Library.Sublist"
begin

section \<open>Conventions\<close>

text \<open>
  The development embeds \<^verbatim>\<open>src/hypergraph/build_hypergraph.py\<close> (class
  \<^verbatim>\<open>SCMLexHypergraph\<close>) and \<^verbatim>\<open>src/hypergraph/query_hypergraph.py\<close> (class
  \<^verbatim>\<open>HypergraphQuery\<close>).

  \<^item> A Python dict with a fixed set of possible keys is a record whose fields are options:
    \<open>None\<close> is "key absent", so that \<^verbatim>\<open>d.get(k, default)\<close> is \<open>dict_get (k d) default\<close> and
    \<^verbatim>\<open>d[k]\<close> on an absent key is a \<open>KeyError\<close>. Record fields carry a prefix naming the
    dict they belong to (\<open>n_\<close> ingest node, \<open>he_\<close> ingest hyperedge, \<open>a_\<close> graph node attributes,
    \<open>ea_\<close> graph edge attributes, \<open>c_\<close> chain item, \<open>en_\<close> the \<^verbatim>\<open>edge_to_next\<close> dict).
  \<^item> Node ids and names are strings. Confidence values are Python floats; they are
    represented by exact rationals, and \<^verbatim>\<open>round(x, 4)\<close> by rounding half to even at the fourth
    decimal.
  \<^item> Exceptions are values of type \<open>error\<close>; a method that can raise returns \<open>error + 'a\<close>.
  \<^item> A leading underscore of a Python method name is dropped (\<^verbatim>\<open>_add_rules\<close> is \<open>add_rules\<close>).
\<close>

datatype error =
    KeyError string
  | NodeNotFound string
  | NetworkXNoPath

definition dict_get :: "'a option \<Rightarrow> 'a \<Rightarrow> 'a" where
  "dict_get v d = (case v of None \<Rightarrow> d | Some x \<Rightarrow> x)"

section \<open>Rounding\<close>

definition round_half_even :: "rat \<Rightarrow> int" where
  "round_half_even q =
     (let f = \<lfloor>q\<rfloor>; d = q - of_int f
      in if d < 1 / 2 then f
         else if 1 / 2 < d then f + 1
         else if even f then f else f + 1)"

text \<open>\<^verbatim>\<open>round(confidence, 4)\<close>\<close>

definition round4 :: "rat \<Rightarrow> rat" where
  "round4 q = of_int (round_half_even (q * 10000)) / 10000"

section \<open>Inference chains and their confidence\<close>

text \<open>The dict stored under \<^verbatim>\<open>'edge_to_next'\<close> and the dict of one chain step.\<close>

record edge_to_next =
  en_type :: string
  en_inference_type :: string
  en_confidence_impact :: "rat option"

record chain_item =
  c_step :: nat
  c_id :: string
  c_name :: string
  c_type :: string
  c_level :: "int option"
  c_confidence :: "rat option"
  c_edge_to_next :: "edge_to_next option"

text \<open>
  \<^verbatim>\<open>
  confidence = 1.0
  for item in path:
      confidence *= item.get('confidence', 1.0)
      if 'edge_to_next' in item:
          confidence *= item['edge_to_next'].get('confidence_impact', 1.0)
  return round(confidence, 4)
  \<close>
\<close>

fun confidence_loop :: "rat \<Rightarrow> chain_item list \<Rightarrow> rat" where
  "confidence_loop confidence [] = confidence"
| "confidence_loop confidence (item # rest) =
     (let confidence1 = confidence * dict_get (c_confidence item) 1;
          confidence2 = (case c_edge_to_next item of
                           None \<Rightarrow> confidence1
                         | Some e \<Rightarrow> confidence1 * dict_get (en_confidence_impact e) 1)
      in confidence_loop confidence2 rest)"

definition compute_path_confidence :: "chain_item list \<Rightarrow> rat" where
  "compute_path_confidence path = round4 (confidence_loop 1 path)"

text \<open>The factor one chain step contributes, and the range condition of the monotonicity property.\<close>

definition step_factor :: "chain_item \<Rightarrow> rat" where
  "step_factor item =
     dict_get (c_confidence item) 1 *
     (case c_edge_to_next item of None \<Rightarrow> 1 | Some e \<Rightarrow> dict_get (en_confidence_impact e) 1)"

definition unit_factors :: "chain_item \<Rightarrow> bool" where
  "unit_factors item \<longleftrightarrow>
     0 \<le> dict_get (c_confidence item) 1 \<and> dict_get (c_confidence item) 1 \<le> 1 \<and>
     (case c_edge_to_next item of
        None \<Rightarrow> True
      | Some e \<Rightarrow> 0 \<le> dict_get (en_confidence_impact e) 1 \<and> dict_get (en_confidence_impact e) 1 \<le> 1)"

section \<open>The ingest payload\<close>

text \<open>
  One JSON object of \<^verbatim>\<open>data['nodes'][...]\<close>. The same shape serves the four node groups; each
  \<^verbatim>\<open>_add_*\<close> method reads the keys it needs.
\<close>

record node_in =
  n_node_id :: "string option"
  n_name :: "string option"
  n_description :: "string option"
  n_domains :: "string list option"
  n_confidence :: "rat option"
  n_provenance :: "string option"
  n_inference_type :: "string option"
  n_application_context :: "string option"
  n_level :: "int option"
  n_jurisdiction :: "string option"
  n_legal_domain :: "string option"
  n_derived_from :: "string list option"

text \<open>The value under \<^verbatim>\<open>'target_nodes'\<close> is a single name or a list of names.\<close>

datatype target_nodes = Scalar string | Listed "string list"

text \<open>One JSON object of \<^verbatim>\<open>data['hyperedges'][...]\<close>, relationship or derivation.\<close>

record hyperedge_in =
  he_hyperedge_id :: "string option"
  he_source_node :: "string option"
  he_target_nodes :: "target_nodes option"
  he_target_node :: "string option"
  he_relationship_name :: "string option"
  he_strength :: "rat option"
  he_source_nodes :: "string list option"
  he_inference_type :: "string option"
  he_confidence_impact :: "rat option"
  he_description :: "string option"

record nodes_in =
  principles :: "node_in list option"
  rules :: "node_in list option"
  concepts :: "node_in list option"
  domains :: "node_in list option"

record hyperedges_in =
  relationships :: "hyperedge_in list option"
  derivations :: "hyperedge_in list option"

record payload =
  data_nodes :: "nodes_in option"
  data_hyperedges :: "hyperedges_in option"

section \<open>The multigraph\<close>

text \<open>
  \<^verbatim>\<open>nx.MultiDiGraph\<close>: a node dict from node id to attribute dict, and the edges in insertion
  order, each with the integer key the library gives it among the parallel edges of its
  ordered pair.
\<close>

record node_attrs =
  a_node_type :: "string option"
  a_level :: "int option"
  a_name :: "string option"
  a_description :: "string option"
  a_domains :: "string list option"
  a_confidence :: "rat option"
  a_provenance :: "string option"
  a_inference_type :: "string option"
  a_application_context :: "string option"
  a_jurisdiction :: "string option"
  a_legal_domain :: "string option"
  a_derived_from :: "string list option"

record edge_attrs =
  ea_edge_type :: "string option"
  ea_relationship_name :: "string option"
  ea_strength :: "rat option"
  ea_hyperedge_id :: "string option"
  ea_inference_type :: "string option"
  ea_confidence_impact :: "rat option"
  ea_description :: "string option"

record edge =
  e_source :: string
  e_target :: string
  e_key :: nat
  e_attrs :: edge_attrs

record multidigraph =
  g_nodes :: "string \<rightharpoonup> node_attrs"
  g_edges :: "edge list"

definition empty_graph :: multidigraph where
  "empty_graph = \<lparr>g_nodes = Map.empty, g_edges = []\<rparr>"

definition no_attrs :: node_attrs where
  "no_attrs = \<lparr>a_node_type = None, a_level = None, a_name = None, a_description = None,
     a_domains = None, a_confidence = None, a_provenance = None, a_inference_type = None,
     a_application_context = None, a_jurisdiction = None, a_legal_domain = None,
     a_derived_from = None\<rparr>"

definition has_node :: "multidigraph \<Rightarrow> string \<Rightarrow> bool" where
  "has_node G n \<longleftrightarrow> g_nodes G n \<noteq> None"

text \<open>\<^verbatim>\<open>dict.update\<close> on one key: the new value if the key is passed, the old one otherwise.\<close>

definition upd :: "'a option \<Rightarrow> 'a option \<Rightarrow> 'a option" where
  "upd old new = (case new of None \<Rightarrow> old | Some v \<Rightarrow> Some v)"

definition update_attrs :: "node_attrs \<Rightarrow> node_attrs \<Rightarrow> node_attrs" where
  "update_attrs old new =
     \<lparr>a_node_type = upd (a_node_type old) (a_node_type new),
      a_level = upd (a_level old) (a_level new),
      a_name = upd (a_name old) (a_name new),
      a_description = upd (a_description old) (a_description new),
      a_domains = upd (a_domains old) (a_domains new),
      a_confidence = upd (a_confidence old) (a_confidence new),
      a_provenance = upd (a_provenance old) (a_provenance new),
      a_inference_type = upd (a_inference_type old) (a_inference_type new),
      a_application_context = upd (a_application_context old) (a_application_context new),
      a_jurisdiction = upd (a_jurisdiction old) (a_jurisdiction new),
      a_legal_domain = upd (a_legal_domain old) (a_legal_domain new),
      a_derived_from = upd (a_derived_from old) (a_derived_from new)\<rparr>"

text \<open>
  \<^verbatim>\<open>G.add_node(n, **attr)\<close>: a new node gets the attributes, an existing node has its
  attribute dict updated with them.
\<close>

definition add_node :: "multidigraph \<Rightarrow> string \<Rightarrow> node_attrs \<Rightarrow> multidigraph" where
  "add_node G n attr =
     G\<lparr>g_nodes := (g_nodes G)(n \<mapsto> (case g_nodes G n of
                                        None \<Rightarrow> attr
                                      | Some old \<Rightarrow> update_attrs old attr))\<rparr>"

definition parallel :: "string \<Rightarrow> string \<Rightarrow> edge \<Rightarrow> bool" where
  "parallel u v e \<longleftrightarrow> e_source e = u \<and> e_target e = v"

text \<open>
  \<^verbatim>\<open>new_edge_key\<close>: the number of parallel edges between \<open>u\<close> and \<open>v\<close>, incremented while it is
  a key in use.
\<close>

function free_key :: "nat list \<Rightarrow> nat \<Rightarrow> nat" where
  "free_key keys key = (if key \<in> set keys then free_key keys (Suc key) else key)"
  by pat_completeness auto
termination
proof (relation "measure (\<lambda>(keys, key). Suc (Max (set keys)) - key)")
  show "wf (measure (\<lambda>(keys, key). Suc (Max (set keys)) - key))"
    by simp
next
  fix keys :: "nat list" and key :: nat
  assume "key \<in> set keys"
  then have "key \<le> Max (set keys)"
    by simp
  then show "((keys, Suc key), (keys, key)) \<in> measure (\<lambda>(keys, key). Suc (Max (set keys)) - key)"
    by simp
qed

definition new_edge_key :: "multidigraph \<Rightarrow> string \<Rightarrow> string \<Rightarrow> nat" where
  "new_edge_key G u v =
     (let keys = map e_key (filter (parallel u v) (g_edges G)) in free_key keys (length keys))"

text \<open>
  \<^verbatim>\<open>G.add_edge(u, v, **attr)\<close>: the library first creates \<open>u\<close> and \<open>v\<close>, with no attributes, when
  they are not nodes yet, then records the edge under a new key.
\<close>

definition ensure_node :: "multidigraph \<Rightarrow> string \<Rightarrow> multidigraph" where
  "ensure_node G n = (if has_node G n then G else G\<lparr>g_nodes := (g_nodes G)(n \<mapsto> no_attrs)\<rparr>)"

definition add_edge :: "multidigraph \<Rightarrow> string \<Rightarrow> string \<Rightarrow> edge_attrs \<Rightarrow> multidigraph" where
  "add_edge G u v attr =
     (let G1 = ensure_node (ensure_node G u) v
      in G1\<lparr>g_edges := g_edges G1 @
              [\<lparr>e_source = u, e_target = v, e_key = new_edge_key G1 u v, e_attrs = attr\<rparr>]\<rparr>)"

section \<open>The builder\<close>

text \<open>
  The fields of \<^verbatim>\<open>SCMLexHypergraph\<close>. \<^verbatim>\<open>self.stats\<close> is left out: \<^verbatim>\<open>_compute_statistics\<close> only
  reads the finished graph, and no operation below reads the statistics.
\<close>

record hypergraph =
  graph :: multidigraph
  hyperedges :: "hyperedge_in list"
  node_index :: "string \<rightharpoonup> string"

definition init :: hypergraph where
  "init = \<lparr>graph = empty_graph, hyperedges = [], node_index = Map.empty\<rparr>"

text \<open>\<^verbatim>\<open>if 'name' in p: self.node_index[p['name']] = node_id\<close>\<close>

definition index_name :: "hypergraph \<Rightarrow> node_in \<Rightarrow> string \<Rightarrow> hypergraph" where
  "index_name st p node_id =
     (case n_name p of
        None \<Rightarrow> st
      | Some nm \<Rightarrow> st\<lparr>node_index := (node_index st)(nm \<mapsto> node_id)\<rparr>)"

definition principle_attrs :: "node_in \<Rightarrow> node_attrs" where
  "principle_attrs p =
     no_attrs\<lparr>a_node_type := Some ''principle'',
              a_level := Some 1,
              a_name := Some (dict_get (n_name p) ''''),
              a_description := Some (dict_get (n_description p) ''''),
              a_domains := Some (dict_get (n_domains p) []),
              a_confidence := Some (dict_get (n_confidence p) 1),
              a_provenance := Some (dict_get (n_provenance p) ''''),
              a_inference_type := Some (dict_get (n_inference_type p) ''''),
              a_application_context := Some (dict_get (n_application_context p) '''')\<rparr>"

definition rule_attrs :: "node_in \<Rightarrow> node_attrs" where
  "rule_attrs r =
     no_attrs\<lparr>a_node_type := Some ''rule'',
              a_level := Some (dict_get (n_level r) 2),
              a_name := Some (dict_get (n_name r) ''''),
              a_description := Some (dict_get (n_description r) ''''),
              a_jurisdiction := Some (dict_get (n_jurisdiction r) ''''),
              a_legal_domain := Some (dict_get (n_legal_domain r) ''''),
              a_confidence := Some (dict_get (n_confidence r) (95 / 100)),
              a_derived_from := Some (dict_get (n_derived_from r) []),
              a_inference_type := Some (dict_get (n_inference_type r) ''deductive'')\<rparr>"

definition concept_attrs :: "node_in \<Rightarrow> node_attrs" where
  "concept_attrs c =
     no_attrs\<lparr>a_node_type := Some ''concept'',
              a_name := Some (dict_get (n_name c) ''''),
              a_description := Some (dict_get (n_description c) ''''),
              a_domains := Some (dict_get (n_domains c) [])\<rparr>"

definition domain_attrs :: "node_in \<Rightarrow> node_attrs" where
  "domain_attrs d =
     no_attrs\<lparr>a_node_type := Some ''domain'',
              a_name := Some (dict_get (n_name d) '''')\<rparr>"

text \<open>
  The four node loops differ only in the attributes passed to \<^verbatim>\<open>add_node\<close>; \<open>add_nodes\<close> is
  their common loop, \<^verbatim>\<open>node_id = p['node_id']\<close> raising \<open>KeyError\<close> when the key is absent.
\<close>

fun add_nodes :: "(node_in \<Rightarrow> node_attrs) \<Rightarrow> hypergraph \<Rightarrow> node_in list \<Rightarrow> error + hypergraph" where
  "add_nodes attrs st [] = Inr st"
| "add_nodes attrs st (p # rest) =
     (case n_node_id p of
        None \<Rightarrow> Inl (KeyError ''node_id'')
      | Some node_id \<Rightarrow>
          add_nodes attrs
            (index_name (st\<lparr>graph := add_node (graph st) node_id (attrs p)\<rparr>) p node_id) rest)"

definition add_principles :: "hypergraph \<Rightarrow> node_in list \<Rightarrow> error + hypergraph" where
  "add_principles st ps = add_nodes principle_attrs st ps"

definition add_rules :: "hypergraph \<Rightarrow> node_in list \<Rightarrow> error + hypergraph" where
  "add_rules st rs = add_nodes rule_attrs st rs"

text \<open>\<^verbatim>\<open>if concepts:\<close> skips the loop for an empty list, which the loop does by itself.\<close>

definition add_concepts :: "hypergraph \<Rightarrow> node_in list \<Rightarrow> error + hypergraph" where
  "add_concepts st cs = (if cs \<noteq> [] then add_nodes concept_attrs st cs else Inr st)"

definition add_domains :: "hypergraph \<Rightarrow> node_in list \<Rightarrow> error + hypergraph" where
  "add_domains st ds = add_nodes domain_attrs st ds"

text \<open>
  \<^verbatim>\<open>self.node_index.get(x, x)\<close>. A relationship without \<^verbatim>\<open>'target_nodes'\<close> and without
  \<^verbatim>\<open>'target_node'\<close> has the target list \<^verbatim>\<open>[None]\<close>, so a target is an optional string;
  \<^verbatim>\<open>None\<close> is no key of the index and no node.
\<close>

definition resolve :: "(string \<rightharpoonup> string) \<Rightarrow> string \<Rightarrow> string" where
  "resolve idx x = dict_get (idx x) x"

definition relationship_targets :: "hyperedge_in \<Rightarrow> string option list" where
  "relationship_targets rel =
     (case he_target_nodes rel of
        None \<Rightarrow> [he_target_node rel]
      | Some (Scalar t) \<Rightarrow> [Some t]
      | Some (Listed ts) \<Rightarrow> map Some ts)"

definition relationship_attrs :: "hyperedge_in \<Rightarrow> edge_attrs" where
  "relationship_attrs rel =
     \<lparr>ea_edge_type = Some ''relationship'',
      ea_relationship_name = Some (dict_get (he_relationship_name rel) ''related-to''),
      ea_strength = Some (dict_get (he_strength rel) (9 / 10)),
      ea_hyperedge_id = Some (dict_get (he_hyperedge_id rel) ''''),
      ea_inference_type = None,
      ea_confidence_impact = None,
      ea_description = None\<rparr>"

definition derivation_attrs :: "hyperedge_in \<Rightarrow> edge_attrs" where
  "derivation_attrs deriv =
     \<lparr>ea_edge_type = Some ''derivation'',
      ea_relationship_name = None,
      ea_strength = None,
      ea_hyperedge_id = Some (dict_get (he_hyperedge_id deriv) ''''),
      ea_inference_type = Some (dict_get (he_inference_type deriv) ''deductive''),
      ea_confidence_impact = Some (dict_get (he_confidence_impact deriv) (95 / 100)),
      ea_description = Some (dict_get (he_description deriv) '''')\<rparr>"

text \<open>The guarded \<^verbatim>\<open>add_edge\<close> both edge loops share.\<close>

definition add_edge_if_present ::
  "hypergraph \<Rightarrow> string \<Rightarrow> string \<Rightarrow> edge_attrs \<Rightarrow> hypergraph" where
  "add_edge_if_present st source_id target_id attr =
     (if has_node (graph st) source_id \<and> has_node (graph st) target_id
      then st\<lparr>graph := add_edge (graph st) source_id target_id attr\<rparr>
      else st)"

text \<open>\<^verbatim>\<open>for target in targets:\<close> of \<^verbatim>\<open>_add_relationships\<close>\<close>

fun relationship_edges ::
  "hypergraph \<Rightarrow> hyperedge_in \<Rightarrow> string \<Rightarrow> string option list \<Rightarrow> hypergraph" where
  "relationship_edges st rel source [] = st"
| "relationship_edges st rel source (target # rest) =
     (let source_id = resolve (node_index st) source
      in relationship_edges
           (case target of
              None \<Rightarrow> st
            | Some t \<Rightarrow>
                add_edge_if_present st source_id (resolve (node_index st) t)
                  (relationship_attrs rel))
           rel source rest)"

fun add_relationships :: "hypergraph \<Rightarrow> hyperedge_in list \<Rightarrow> error + hypergraph" where
  "add_relationships st [] = Inr st"
| "add_relationships st (rel # rest) =
     (case he_source_node rel of
        None \<Rightarrow> Inl (KeyError ''source_node'')
      | Some source \<Rightarrow>
          (let targets = relationship_targets rel;
               st1 = relationship_edges st rel source targets;
               st2 = (if length targets > 1
                      then st1\<lparr>hyperedges := hyperedges st1 @ [rel]\<rparr>
                      else st1)
           in add_relationships st2 rest))"

text \<open>\<^verbatim>\<open>for source in source_nodes:\<close> of \<^verbatim>\<open>_add_derivations\<close>\<close>

fun derivation_edges ::
  "hypergraph \<Rightarrow> hyperedge_in \<Rightarrow> string \<Rightarrow> string list \<Rightarrow> hypergraph" where
  "derivation_edges st deriv target_node [] = st"
| "derivation_edges st deriv target_node (source # rest) =
     (let source_id = resolve (node_index st) source;
          target_id = target_node
      in derivation_edges
           (add_edge_if_present st source_id target_id (derivation_attrs deriv))
           deriv target_node rest)"

fun add_derivations :: "hypergraph \<Rightarrow> hyperedge_in list \<Rightarrow> hypergraph" where
  "add_derivations st [] = st"
| "add_derivations st (deriv # rest) =
     (let source_nodes = dict_get (he_source_nodes deriv) [];
          target_node = dict_get (he_target_node deriv) '''';
          st1 = derivation_edges st deriv target_node source_nodes
      in add_derivations (st1\<lparr>hyperedges := hyperedges st1 @ [deriv]\<rparr>) rest)"

text \<open>
  \<^verbatim>\<open>load_from_tuples\<close>, from the parsed JSON document on. Every \<^verbatim>\<open>data[...][...]\<close> is evaluated
  when its statement is reached, so the first absent group decides the \<open>KeyError\<close>; \<open>lookup\<close>
  is \<^verbatim>\<open>d[key]\<close> and \<open>and_then\<close> passes an exception on.
\<close>

definition lookup :: "string \<Rightarrow> 'a option \<Rightarrow> error + 'a" where
  "lookup key v = (case v of None \<Rightarrow> Inl (KeyError key) | Some x \<Rightarrow> Inr x)"

definition and_then :: "error + 'a \<Rightarrow> ('a \<Rightarrow> error + 'b) \<Rightarrow> error + 'b" where
  "and_then r f = (case r of Inl e \<Rightarrow> Inl e | Inr x \<Rightarrow> f x)"

definition load_from_tuples :: "payload \<Rightarrow> error + hypergraph" where
  "load_from_tuples data =
     and_then (lookup ''nodes'' (data_nodes data)) (\<lambda>ns.
     and_then (lookup ''principles'' (principles ns)) (\<lambda>ps.
     and_then (add_principles init ps) (\<lambda>st1.
     and_then (lookup ''rules'' (rules ns)) (\<lambda>rs.
     and_then (add_rules st1 rs) (\<lambda>st2.
     and_then (lookup ''concepts'' (concepts ns)) (\<lambda>cs.
     and_then (add_concepts st2 cs) (\<lambda>st3.
     and_then (lookup ''domains'' (domains ns)) (\<lambda>ds.
     and_then (add_domains st3 ds) (\<lambda>st4.
     and_then (lookup ''hyperedges'' (data_hyperedges data)) (\<lambda>hs.
     and_then (lookup ''relationships'' (relationships hs)) (\<lambda>rels.
     and_then (add_relationships st4 rels) (\<lambda>st5.
     and_then (lookup ''derivations'' (derivations hs)) (\<lambda>ders.
     Inr (add_derivations st5 ders))))))))))))))"

section \<open>Library traversals\<close>

text \<open>
  The operations of \<^verbatim>\<open>networkx\<close> the queries call, on the representation above.

  \<^verbatim>\<open>G.edges(u)\<close> and \<^verbatim>\<open>G.out_edges(u)\<close> list the out-edges of \<open>u\<close> neighbour by neighbour, the
  neighbours in the order of their first edge from \<open>u\<close>, the parallel edges of one neighbour in
  insertion order.
\<close>

definition first_occurrences :: "'a list \<Rightarrow> 'a list" where
  "first_occurrences xs = rev (remdups (rev xs))"

definition edges_from :: "multidigraph \<Rightarrow> string \<Rightarrow> edge list" where
  "edges_from G u =
     (let es = filter (\<lambda>e. e_source e = u) (g_edges G)
      in concat (map (\<lambda>v. filter (\<lambda>e. e_target e = v) es) (first_occurrences (map e_target es))))"

definition successors :: "multidigraph \<Rightarrow> string \<Rightarrow> string list" where
  "successors G u = map e_target (edges_from G u)"

text \<open>
  \<^verbatim>\<open>G.nbunch_iter(n)\<close> for a string \<open>n\<close>: the node itself when it is one; otherwise the string is
  iterated as a sequence and those of its one-character pieces that are nodes are kept. The
  edge view keeps each such node once.
\<close>

definition nbunch_iter :: "multidigraph \<Rightarrow> string \<Rightarrow> string list" where
  "nbunch_iter G n =
     (if has_node G n then [n]
      else first_occurrences (filter (has_node G) (map (\<lambda>c. [c]) n)))"

definition out_edges :: "multidigraph \<Rightarrow> string \<Rightarrow> edge list" where
  "out_edges G n = concat (map (edges_from G) (nbunch_iter G n))"

text \<open>
  \<^verbatim>\<open>G.get_edge_data(u, v)\<close>: the dict from edge key to attribute dict of the parallel edges
  from \<open>u\<close> to \<open>v\<close>, as an association list; the empty list stands for the result \<^verbatim>\<open>None\<close>.
\<close>

definition get_edge_data :: "multidigraph \<Rightarrow> string \<Rightarrow> string \<Rightarrow> (nat \<times> edge_attrs) list" where
  "get_edge_data G u v = map (\<lambda>e. (e_key e, e_attrs e)) (filter (parallel u v) (g_edges G))"

text \<open>
  \<^verbatim>\<open>nx.shortest_path(G, source, target)\<close> without weights: a path with the fewest edges, found
  breadth first. \<open>bfs_expand\<close> extends the paths of one layer (kept reversed) by every successor
  not seen before; \<open>bfs\<close> stops at the first layer that reaches the target. A shortest path has
  at most as many edges as the graph, which bounds the number of layers. Which of several
  shortest paths the library returns is its own choice; here it is the first one reached.
\<close>

fun bfs_visit ::
  "string list \<Rightarrow> string list \<Rightarrow> string list list \<times> string list \<Rightarrow> string list list \<times> string list" where
  "bfs_visit p [] (layer, seen) = (layer, seen)"
| "bfs_visit p (v # vs) (layer, seen) =
     (if v \<in> set seen then bfs_visit p vs (layer, seen)
      else bfs_visit p vs (layer @ [v # p], v # seen))"

fun bfs_expand ::
  "multidigraph \<Rightarrow> string list list \<Rightarrow> string list list \<times> string list \<Rightarrow> string list list \<times> string list" where
  "bfs_expand G [] acc = acc"
| "bfs_expand G (p # ps) acc =
     bfs_expand G ps (case p of [] \<Rightarrow> acc | u # _ \<Rightarrow> bfs_visit p (successors G u) acc)"

fun bfs :: "multidigraph \<Rightarrow> string \<Rightarrow> nat \<Rightarrow> string list list \<Rightarrow> string list \<Rightarrow> string list option" where
  "bfs G target 0 layer seen = None"
| "bfs G target (Suc fuel) layer seen =
     (case find (\<lambda>p. p \<noteq> [] \<and> hd p = target) layer of
        Some p \<Rightarrow> Some (rev p)
      | None \<Rightarrow>
          (if layer = [] then None
           else (let (layer', seen') = bfs_expand G layer ([], seen)
                 in bfs G target fuel layer' seen')))"

definition shortest_path :: "multidigraph \<Rightarrow> string \<Rightarrow> string \<Rightarrow> error + string list" where
  "shortest_path G source target =
     (if \<not> has_node G source then Inl (NodeNotFound source)
      else if \<not> has_node G target then Inl (NodeNotFound target)
      else (case bfs G target (Suc (Suc (length (g_edges G)))) [[source]] [source] of
              None \<Rightarrow> Inl NetworkXNoPath
            | Some path \<Rightarrow> Inr path))"

text \<open>
  \<^verbatim>\<open>nx.all_simple_paths(G, source, target, cutoff)\<close>, as in networkx 3: a depth-first search
  that reports a path each time it enters a target, and goes on through a node only while the
  path to it has fewer than \<open>cutoff\<close> edges and some target is not yet on the path. \<open>simple_paths\<close>
  is the search entering node \<open>v\<close> after the nodes \<open>path\<close>, with \<open>k\<close> edges left. A target that is not
  a node is taken as a sequence, so the targets are then its one-character pieces. In a
  multigraph a node path is reported once for every choice of parallel edges.
\<close>

fun simple_paths ::
  "multidigraph \<Rightarrow> string list \<Rightarrow> nat \<Rightarrow> string list \<Rightarrow> string \<Rightarrow> string list list" where
  "simple_paths G targets 0 path v = (if v \<in> set targets then [path @ [v]] else [])"
| "simple_paths G targets (Suc k) path v =
     (if v \<in> set targets then [path @ [v]] else []) @
     (if \<exists>t \<in> set targets. t \<notin> set (path @ [v])
      then concat (map (\<lambda>w. simple_paths G targets k (path @ [v]) w)
                    (filter (\<lambda>w. w \<notin> set (path @ [v])) (successors G v)))
      else [])"

definition all_simple_paths ::
  "multidigraph \<Rightarrow> string \<Rightarrow> string \<Rightarrow> int \<Rightarrow> error + string list list" where
  "all_simple_paths G source target cutoff =
     (if \<not> has_node G source then Inl (NodeNotFound source)
      else (let targets = (if has_node G target then [target] else map (\<lambda>c. [c]) target)
            in if 0 \<le> cutoff \<and> targets \<noteq> []
               then Inr (simple_paths G targets (nat cutoff) [] source)
               else Inr []))"

section \<open>The query engine\<close>

text \<open>
  \<^verbatim>\<open>HypergraphQuery\<close> holds the graph, the hyperedges and the name index of a built
  \<open>hypergraph\<close>; its methods take that state as first argument. \<^verbatim>\<open>self.graph.nodes[n]\<close> raises
  \<open>KeyError\<close> for an \<open>n\<close> that is no node.
\<close>

definition node_data_of :: "multidigraph \<Rightarrow> string \<Rightarrow> error + node_attrs" where
  "node_data_of G n = (case g_nodes G n of None \<Rightarrow> Inl (KeyError n) | Some d \<Rightarrow> Inr d)"

text \<open>
  The \<^verbatim>\<open>'edge_to_next'\<close> entry of a chain step, from \<^verbatim>\<open>edge_data = get_edge_data(node_id, path[i+1])\<close>:
  absent when there is no edge data; taken from the edge with key 0 when there is one; when no
  edge has key 0 the dict of keys is read as if it were an attribute dict and only defaults
  come out.
\<close>

definition edge_to_next_dict :: "edge_attrs \<Rightarrow> edge_to_next" where
  "edge_to_next_dict edge_data =
     \<lparr>en_type = dict_get (ea_edge_type edge_data) '''',
      en_inference_type = dict_get (ea_inference_type edge_data) '''',
      en_confidence_impact = Some (dict_get (ea_confidence_impact edge_data) 1)\<rparr>"

definition edge_to_next_of :: "multidigraph \<Rightarrow> string \<Rightarrow> string \<Rightarrow> edge_to_next option" where
  "edge_to_next_of G node_id next_id =
     (let edge_data = get_edge_data G node_id next_id
      in if edge_data = [] then None
         else (case map_of edge_data 0 of
                 Some attr \<Rightarrow> Some (edge_to_next_dict attr)
               | None \<Rightarrow>
                   Some \<lparr>en_type = '''', en_inference_type = '''',
                         en_confidence_impact = Some 1\<rparr>))"

text \<open>\<^verbatim>\<open>for i, node_id in enumerate(path):\<close> of \<^verbatim>\<open>build_inference_chain\<close>, from index \<open>i\<close> on.\<close>

fun chain_items :: "multidigraph \<Rightarrow> nat \<Rightarrow> string list \<Rightarrow> error + chain_item list" where
  "chain_items G i [] = Inr []"
| "chain_items G i (node_id # rest) =
     and_then (node_data_of G node_id) (\<lambda>node_data.
     and_then (chain_items G (i + 1) rest) (\<lambda>items.
       Inr (\<lparr>c_step = i + 1,
             c_id = node_id,
             c_name = dict_get (a_name node_data) '''',
             c_type = dict_get (a_node_type node_data) '''',
             c_level = Some (dict_get (a_level node_data) 0),
             c_confidence = Some (dict_get (a_confidence node_data) 1),
             c_edge_to_next = (case rest of
                                 [] \<Rightarrow> None
                               | next_id # _ \<Rightarrow> edge_to_next_of G node_id next_id)\<rparr> # items)))"

text \<open>
  \<^verbatim>\<open>if not start_id or not end_id\<close>: an id is falsy when the name is no key of the index or the
  id is the empty string. \<open>NetworkXNoPath\<close> is the one exception the methods catch.
\<close>

definition truthy :: "string option \<Rightarrow> bool" where
  "truthy v \<longleftrightarrow> (case v of None \<Rightarrow> False | Some s \<Rightarrow> s \<noteq> [])"

definition build_inference_chain ::
  "hypergraph \<Rightarrow> string \<Rightarrow> string \<Rightarrow> error + chain_item list option" where
  "build_inference_chain q start_principle end_rule =
     (let start_id = node_index q start_principle;
          end_id = node_index q end_rule
      in if \<not> truthy start_id \<or> \<not> truthy end_id then Inr None
         else (case shortest_path (graph q) (dict_get start_id []) (dict_get end_id []) of
                 Inl NetworkXNoPath \<Rightarrow> Inr None
               | Inl e \<Rightarrow> Inl e
               | Inr path \<Rightarrow> and_then (chain_items (graph q) 0 path) (\<lambda>chain. Inr (Some chain))))"

text \<open>The inner loop of \<^verbatim>\<open>find_all_paths\<close>: its steps carry no level and no edge.\<close>

fun detailed_path :: "multidigraph \<Rightarrow> nat \<Rightarrow> string list \<Rightarrow> error + chain_item list" where
  "detailed_path G i [] = Inr []"
| "detailed_path G i (node_id # rest) =
     and_then (node_data_of G node_id) (\<lambda>node_data.
     and_then (detailed_path G (i + 1) rest) (\<lambda>items.
       Inr (\<lparr>c_step = i + 1,
             c_id = node_id,
             c_name = dict_get (a_name node_data) '''',
             c_type = dict_get (a_node_type node_data) '''',
             c_level = None,
             c_confidence = Some (dict_get (a_confidence node_data) 1),
             c_edge_to_next = None\<rparr> # items)))"

fun detailed_paths :: "multidigraph \<Rightarrow> string list list \<Rightarrow> error + chain_item list list" where
  "detailed_paths G [] = Inr []"
| "detailed_paths G (path # rest) =
     and_then (detailed_path G 0 path) (\<lambda>d.
     and_then (detailed_paths G rest) (\<lambda>ds. Inr (d # ds)))"

definition find_all_paths ::
  "hypergraph \<Rightarrow> string \<Rightarrow> string \<Rightarrow> int \<Rightarrow> error + chain_item list list" where
  "find_all_paths q start_principle end_rule max_length =
     (let start_id = node_index q start_principle;
          end_id = node_index q end_rule
      in if \<not> truthy start_id \<or> \<not> truthy end_id then Inr []
         else (case all_simple_paths (graph q) (dict_get start_id []) (dict_get end_id [])
                      max_length of
                 Inl NetworkXNoPath \<Rightarrow> Inr []
               | Inl e \<Rightarrow> Inl e
               | Inr paths \<Rightarrow> detailed_paths (graph q) paths))"

text \<open>The result dicts of \<^verbatim>\<open>find_rules_derived_from_principle\<close> and \<^verbatim>\<open>find_related_principles\<close>.\<close>

record rule_view =
  rv_id :: string
  rv_name :: string
  rv_description :: string
  rv_jurisdiction :: string
  rv_legal_domain :: string
  rv_confidence :: rat
  rv_inference_type :: string

record related_view =
  rl_id :: string
  rl_name :: string
  rl_description :: string
  rl_relationship :: string
  rl_strength :: rat

fun derived_rules :: "multidigraph \<Rightarrow> edge list \<Rightarrow> error + rule_view list" where
  "derived_rules G [] = Inr []"
| "derived_rules G (e # es) =
     (if ea_edge_type (e_attrs e) = Some ''derivation''
      then and_then (node_data_of G (e_target e)) (\<lambda>target_data.
           and_then (derived_rules G es) (\<lambda>results.
             Inr (\<lparr>rv_id = e_target e,
                   rv_name = dict_get (a_name target_data) '''',
                   rv_description = dict_get (a_description target_data) '''',
                   rv_jurisdiction = dict_get (a_jurisdiction target_data) '''',
                   rv_legal_domain = dict_get (a_legal_domain target_data) '''',
                   rv_confidence = dict_get (a_confidence target_data) (95 / 100),
                   rv_inference_type = dict_get (ea_inference_type (e_attrs e)) ''deductive''\<rparr>
                  # results)))
      else derived_rules G es)"

definition find_rules_derived_from_principle ::
  "hypergraph \<Rightarrow> string \<Rightarrow> error + rule_view list" where
  "find_rules_derived_from_principle q principle_name =
     (let principle_id = node_index q principle_name
      in if \<not> truthy principle_id then Inr []
         else derived_rules (graph q) (out_edges (graph q) (dict_get principle_id [])))"

fun related_principles :: "multidigraph \<Rightarrow> edge list \<Rightarrow> error + related_view list" where
  "related_principles G [] = Inr []"
| "related_principles G (e # es) =
     (if ea_edge_type (e_attrs e) = Some ''relationship''
      then and_then (node_data_of G (e_target e)) (\<lambda>target_data.
           and_then (related_principles G es) (\<lambda>results.
             if a_node_type target_data = Some ''principle''
             then Inr (\<lparr>rl_id = e_target e,
                        rl_name = dict_get (a_name target_data) '''',
                        rl_description = dict_get (a_description target_data) '''',
                        rl_relationship = dict_get (ea_relationship_name (e_attrs e)) ''related-to'',
                        rl_strength = dict_get (ea_strength (e_attrs e)) (9 / 10)\<rparr>
                       # results)
             else Inr results))
      else related_principles G es)"

definition find_related_principles ::
  "hypergraph \<Rightarrow> string \<Rightarrow> error + related_view list" where
  "find_related_principles q principle_name =
     (let principle_id = node_index q principle_name
      in if \<not> truthy principle_id then Inr []
         else related_principles (graph q) (out_edges (graph q) (dict_get principle_id [])))"

text \<open>
  \<^verbatim>\<open>get_rule_by_name\<close>: the node's attribute dict read through the index. The result pairs the
  \<^verbatim>\<open>'id'\<close> entry with the other entries of the returned dict.
\<close>

definition get_rule_by_name :: "hypergraph \<Rightarrow> string \<Rightarrow> error + (string \<times> node_attrs) option" where
  "get_rule_by_name q nm =
     (let node_id = node_index q nm
      in if \<not> truthy node_id then Inr None
         else and_then (node_data_of (graph q) (dict_get node_id [])) (\<lambda>d.
                Inr (Some (dict_get node_id [], no_attrs\<lparr>
                  a_name := Some (dict_get (a_name d) ''''),
                  a_description := Some (dict_get (a_description d) ''''),
                  a_jurisdiction := Some (dict_get (a_jurisdiction d) ''''),
                  a_legal_domain := Some (dict_get (a_legal_domain d) ''''),
                  a_confidence := Some (dict_get (a_confidence d) (95 / 100)),
                  a_level := Some (dict_get (a_level d) 2),
                  a_derived_from := Some (dict_get (a_derived_from d) []),
                  a_inference_type := Some (dict_get (a_inference_type d) ''deductive'')\<rparr>))))"

section \<open>Scenario data\<close>

text \<open>The empty JSON objects, from which the scenario records are written.\<close>

definition blank_node :: node_in where
  "blank_node = \<lparr>n_node_id = None, n_name = None, n_description = None, n_domains = None,
     n_confidence = None, n_provenance = None, n_inference_type = None,
     n_application_context = None, n_level = None, n_jurisdiction = None,
     n_legal_domain = None, n_derived_from = None\<rparr>"

definition blank_hyperedge :: hyperedge_in where
  "blank_hyperedge = \<lparr>he_hyperedge_id = None, he_source_node = None, he_target_nodes = None,
     he_target_node = None, he_relationship_name = None, he_strength = None,
     he_source_nodes = None, he_inference_type = None, he_confidence_impact = None,
     he_description = None\<rparr>"

definition P1 :: node_in where
  "P1 = blank_node\<lparr>n_node_id := Some ''P1'', n_name := Some ''pacta-sunt-servanda'',
                    n_domains := Some [''contract''], n_confidence := Some 1\<rparr>"

definition P2 :: node_in where
  "P2 = blank_node\<lparr>n_node_id := Some ''P2'', n_name := Some ''good-faith'',
                    n_domains := Some [''contract'']\<rparr>"

definition R1 :: node_in where
  "R1 = blank_node\<lparr>n_node_id := Some ''R1'', n_name := Some ''enforce-contract'',
                    n_jurisdiction := Some ''ZA'', n_legal_domain := Some ''contract'',
                    n_confidence := Some (95 / 100),
                    n_derived_from := Some [''pacta-sunt-servanda'']\<rparr>"

definition payload_of ::
  "node_in list \<Rightarrow> node_in list \<Rightarrow> hyperedge_in list \<Rightarrow> hyperedge_in list \<Rightarrow> payload" where
  "payload_of ps rs rels ders =
     \<lparr>data_nodes = Some \<lparr>principles = Some ps, rules = Some rs, concepts = Some [],
                          domains = Some []\<rparr>,
      data_hyperedges = Some \<lparr>relationships = Some rels, derivations = Some ders\<rparr>\<rparr>"

text \<open>
  The scenario of the specification: two principles, one relationship hyperedge between them,
  and a rule derived from the first principle through one derivation hyperedge that names the
  rule by its id and carries no \<^verbatim>\<open>confidence_impact\<close> of its own.
\<close>

definition scenario_payload :: payload where
  "scenario_payload =
     payload_of [P1, P2] [R1]
       [blank_hyperedge\<lparr>he_source_node := Some ''pacta-sunt-servanda'',
                        he_target_nodes := Some (Listed [''good-faith'']),
                        he_strength := Some (9 / 10)\<rparr>]
       [blank_hyperedge\<lparr>he_source_nodes := Some [''pacta-sunt-servanda''],
                        he_target_node := Some ''R1''\<rparr>]"

text \<open>Building a payload, asking for an inference chain, and scoring it.\<close>

definition inference_chain_of :: "payload \<Rightarrow> string \<Rightarrow> string \<Rightarrow> error + chain_item list option" where
  "inference_chain_of data start_principle end_rule =
     and_then (load_from_tuples data) (\<lambda>q. build_inference_chain q start_principle end_rule)"

definition inference_chain_confidence ::
  "payload \<Rightarrow> string \<Rightarrow> string \<Rightarrow> error + (nat \<times> rat) option" where
  "inference_chain_confidence data start_principle end_rule =
     and_then (inference_chain_of data start_principle end_rule) (\<lambda>chain.
       Inr (map_option (\<lambda>c. (length c, compute_path_confidence c)) chain))"

section \<open>Invariants of the builder\<close>

definition edges_closed :: "multidigraph \<Rightarrow> bool" where
  "edges_closed G \<longleftrightarrow>
     (\<forall>e \<in> set (g_edges G). has_node G (e_source e) \<and> has_node G (e_target e))"

definition index_closed :: "hypergraph \<Rightarrow> bool" where
  "index_closed st \<longleftrightarrow> (\<forall>nm i. node_index st nm = Some i \<longrightarrow> has_node (graph st) i)"

definition endpoints :: "edge \<Rightarrow> string \<times> string" where
  "endpoints e = (e_source e, e_target e)"

lemma has_node_add_node [simp]: "has_node (add_node G n a) m \<longleftrightarrow> m = n \<or> has_node G m"
  by (simp add: has_node_def add_node_def)

lemma g_edges_add_node [simp]: "g_edges (add_node G n a) = g_edges G"
  by (simp add: add_node_def)

lemma dom_add_node [simp]: "dom (g_nodes (add_node G n a)) = insert n (dom (g_nodes G))"
  by (simp add: add_node_def)

lemma has_node_dom: "has_node G n \<longleftrightarrow> n \<in> dom (g_nodes G)"
  by (auto simp: has_node_def)

lemma ensure_node_present [simp]: "has_node G n \<Longrightarrow> ensure_node G n = G"
  by (simp add: ensure_node_def)

lemma has_node_ensure_node [simp]: "has_node (ensure_node G n) m \<longleftrightarrow> m = n \<or> has_node G m"
  by (auto simp: ensure_node_def has_node_def)

lemma g_edges_ensure_node [simp]: "g_edges (ensure_node G n) = g_edges G"
  by (simp add: ensure_node_def)

lemma g_edges_add_edge:
  "g_edges (add_edge G u v a) =
     g_edges G @ [\<lparr>e_source = u, e_target = v,
                   e_key = new_edge_key (ensure_node (ensure_node G u) v) u v, e_attrs = a\<rparr>]"
  by (simp add: add_edge_def Let_def)

lemma has_node_add_edge [simp]: "has_node (add_edge G u v a) m \<longleftrightarrow> m = u \<or> m = v \<or> has_node G m"
  by (auto simp: add_edge_def Let_def has_node_def ensure_node_def)

lemma g_nodes_add_edge_present:
  "has_node G u \<Longrightarrow> has_node G v \<Longrightarrow> g_nodes (add_edge G u v a) = g_nodes G"
  by (simp add: add_edge_def Let_def)

text \<open>The library's \<^verbatim>\<open>add_edge\<close> keeps every edge between nodes, whatever the caller checks.\<close>

lemma edges_closed_add_edge: "edges_closed G \<Longrightarrow> edges_closed (add_edge G u v a)"
  by (auto simp: edges_closed_def g_edges_add_edge)

lemma edges_closed_add_node: "edges_closed G \<Longrightarrow> edges_closed (add_node G n a)"
  by (auto simp: edges_closed_def)

subsection \<open>The guarded edge insertion\<close>

lemma add_edge_if_present_fields [simp]:
  "node_index (add_edge_if_present st s t a) = node_index st"
  "hyperedges (add_edge_if_present st s t a) = hyperedges st"
  "g_nodes (graph (add_edge_if_present st s t a)) = g_nodes (graph st)"
  by (simp_all add: add_edge_if_present_def g_nodes_add_edge_present)

lemma has_node_add_edge_if_present [simp]:
  "has_node (graph (add_edge_if_present st s t a)) m \<longleftrightarrow> has_node (graph st) m"
  by (simp add: has_node_def)

lemma endpoints_add_edge_if_present:
  "map endpoints (g_edges (graph (add_edge_if_present st s t a))) =
     map endpoints (g_edges (graph st)) @
     (if has_node (graph st) s \<and> has_node (graph st) t then [(s, t)] else [])"
  by (simp add: add_edge_if_present_def g_edges_add_edge endpoints_def)

lemma edges_closed_add_edge_if_present:
  "edges_closed (graph st) \<Longrightarrow> edges_closed (graph (add_edge_if_present st s t a))"
  by (simp add: add_edge_if_present_def edges_closed_add_edge)

subsection \<open>The node loops\<close>

lemma index_name_fields [simp]:
  "graph (index_name st p i) = graph st"
  "hyperedges (index_name st p i) = hyperedges st"
  by (simp_all add: index_name_def split: option.split)

lemma add_nodes_fields:
  "add_nodes attrs st ps = Inr st' \<Longrightarrow>
     g_edges (graph st') = g_edges (graph st) \<and> hyperedges st' = hyperedges st \<and>
     dom (g_nodes (graph st')) = dom (g_nodes (graph st)) \<union> {i. Some i \<in> n_node_id ` set ps}"
proof (induction ps arbitrary: st)
  case Nil
  then show ?case by simp
next
  case (Cons p ps)
  then obtain i where i: "n_node_id p = Some i"
    by (cases "n_node_id p") simp_all
  let ?st = "index_name (st\<lparr>graph := add_node (graph st) i (attrs p)\<rparr>) p i"
  from Cons.prems i have "add_nodes attrs ?st ps = Inr st'"
    by simp
  from Cons.IH [OF this] i show ?case
    by auto
qed

lemma add_nodes_index_closed:
  "add_nodes attrs st ps = Inr st' \<Longrightarrow> index_closed st \<Longrightarrow> index_closed st'"
proof (induction ps arbitrary: st)
  case Nil
  then show ?case by simp
next
  case (Cons p ps)
  then obtain i where i: "n_node_id p = Some i"
    by (cases "n_node_id p") simp_all
  let ?st = "index_name (st\<lparr>graph := add_node (graph st) i (attrs p)\<rparr>) p i"
  from Cons.prems i have run: "add_nodes attrs ?st ps = Inr st'"
    by simp
  from Cons.prems(2) have "index_closed ?st"
    by (auto simp: index_closed_def index_name_def split: option.split)
  with Cons.IH [OF run] show ?case .
qed

lemma add_nodes_succeeds:
  "(\<exists>st'. add_nodes attrs st ps = Inr st') \<longleftrightarrow> (\<forall>p \<in> set ps. n_node_id p \<noteq> None)"
  by (induction ps arbitrary: st) (auto split: option.splits)

lemma add_nodes_error:
  "add_nodes attrs st ps = Inl e \<Longrightarrow> e = KeyError ''node_id''"
  by (induction ps arbitrary: st) (auto split: option.splits)

lemma add_nodes_edges_closed:
  assumes "add_nodes attrs st ps = Inr st'" and "edges_closed (graph st)"
  shows "edges_closed (graph st')"
proof -
  from add_nodes_fields [OF assms(1)]
  have "g_edges (graph st') = g_edges (graph st)"
    and "dom (g_nodes (graph st)) \<subseteq> dom (g_nodes (graph st'))"
    by auto
  with assms(2) show ?thesis
    unfolding edges_closed_def has_node_dom by auto
qed

subsection \<open>The edge loops\<close>

text \<open>
  What each edge loop is to add, written out: the pairs of resolved ends that are both nodes.
  A relationship resolves its source and every target through the index; a derivation resolves
  its sources and takes its target as it stands.
\<close>

definition relationship_pairs_spec ::
  "hypergraph \<Rightarrow> string \<Rightarrow> string option list \<Rightarrow> (string \<times> string) list" where
  "relationship_pairs_spec st source targets =
     [(resolve (node_index st) source, resolve (node_index st) t).
        t \<leftarrow> concat (map (\<lambda>target. case target of None \<Rightarrow> [] | Some t \<Rightarrow> [t]) targets),
        has_node (graph st) (resolve (node_index st) source) \<and>
        has_node (graph st) (resolve (node_index st) t)]"

definition derivation_pairs_spec :: "hypergraph \<Rightarrow> hyperedge_in \<Rightarrow> (string \<times> string) list" where
  "derivation_pairs_spec st deriv =
     [(resolve (node_index st) s, dict_get (he_target_node deriv) '''').
        s \<leftarrow> dict_get (he_source_nodes deriv) [],
        has_node (graph st) (resolve (node_index st) s) \<and>
        has_node (graph st) (dict_get (he_target_node deriv) '''')]"

lemma relationship_edges_keeps:
  "node_index (relationship_edges st rel source targets) = node_index st \<and>
   hyperedges (relationship_edges st rel source targets) = hyperedges st \<and>
   g_nodes (graph (relationship_edges st rel source targets)) = g_nodes (graph st)"
  by (induction targets arbitrary: st) (simp_all add: Let_def split: option.split)

lemma relationship_edges_fields [simp]:
  "node_index (relationship_edges st rel source targets) = node_index st"
  "hyperedges (relationship_edges st rel source targets) = hyperedges st"
  "g_nodes (graph (relationship_edges st rel source targets)) = g_nodes (graph st)"
  using relationship_edges_keeps [of st rel source targets] by simp_all

lemma relationship_pairs_spec_cong:
  "node_index st' = node_index st \<Longrightarrow> g_nodes (graph st') = g_nodes (graph st) \<Longrightarrow>
   relationship_pairs_spec st' source targets = relationship_pairs_spec st source targets"
  by (simp add: relationship_pairs_spec_def has_node_def cong: if_cong)

lemma relationship_edges_endpoints:
  "map endpoints (g_edges (graph (relationship_edges st rel source targets))) =
     map endpoints (g_edges (graph st)) @ relationship_pairs_spec st source targets"
proof (induction targets arbitrary: st)
  case Nil
  show ?case by (simp add: relationship_pairs_spec_def)
next
  case (Cons target targets)
  show ?case
  proof (cases target)
    case None
    with Cons.IH [of st] show ?thesis
      by (simp add: relationship_pairs_spec_def)
  next
    case (Some t)
    let ?st = "add_edge_if_present st (resolve (node_index st) source)
                 (resolve (node_index st) t) (relationship_attrs rel)"
    have "relationship_pairs_spec ?st source targets = relationship_pairs_spec st source targets"
      by (rule relationship_pairs_spec_cong) simp_all
    with Cons.IH [of ?st] Some show ?thesis
      by (simp add: endpoints_add_edge_if_present)
         (simp add: relationship_pairs_spec_def)
  qed
qed

lemma relationship_edges_closed:
  "edges_closed (graph st) \<Longrightarrow> edges_closed (graph (relationship_edges st rel source targets))"
  by (induction targets arbitrary: st)
     (simp_all add: Let_def edges_closed_add_edge_if_present split: option.split)

lemma add_relationships_succeeds:
  "(\<exists>st'. add_relationships st rels = Inr st') \<longleftrightarrow> (\<forall>rel \<in> set rels. he_source_node rel \<noteq> None)"
  by (induction rels arbitrary: st) (auto simp: Let_def split: option.splits)

lemma add_relationships_error:
  "add_relationships st rels = Inl e \<Longrightarrow> e = KeyError ''source_node''"
  by (induction rels arbitrary: st) (auto simp: Let_def split: option.splits if_splits)

lemma add_relationships_fields:
  "add_relationships st rels = Inr st' \<Longrightarrow>
     node_index st' = node_index st \<and> g_nodes (graph st') = g_nodes (graph st) \<and>
     hyperedges st' = hyperedges st @ filter (\<lambda>rel. 1 < length (relationship_targets rel)) rels"
proof (induction rels arbitrary: st)
  case Nil
  then show ?case by simp
next
  case (Cons rel rels)
  then obtain source where source: "he_source_node rel = Some source"
    by (cases "he_source_node rel") simp_all
  let ?st1 = "relationship_edges st rel source (relationship_targets rel)"
  let ?st2 = "if 1 < length (relationship_targets rel)
              then ?st1\<lparr>hyperedges := hyperedges ?st1 @ [rel]\<rparr> else ?st1"
  from Cons.prems source have "add_relationships ?st2 rels = Inr st'"
    by (simp add: Let_def)
  from Cons.IH [OF this] show ?case
    by simp
qed

lemma add_relationships_closed:
  "add_relationships st rels = Inr st' \<Longrightarrow> edges_closed (graph st) \<Longrightarrow> edges_closed (graph st')"
proof (induction rels arbitrary: st)
  case Nil
  then show ?case by simp
next
  case (Cons rel rels)
  then obtain source where source: "he_source_node rel = Some source"
    by (cases "he_source_node rel") simp_all
  let ?st1 = "relationship_edges st rel source (relationship_targets rel)"
  let ?st2 = "if 1 < length (relationship_targets rel)
              then ?st1\<lparr>hyperedges := hyperedges ?st1 @ [rel]\<rparr> else ?st1"
  from Cons.prems source have run: "add_relationships ?st2 rels = Inr st'"
    by (simp add: Let_def)
  have "edges_closed (graph ?st2)"
    using relationship_edges_closed [OF Cons.prems(2)] by simp
  with Cons.IH [OF run] show ?case .
qed

lemma derivation_edges_keeps:
  "node_index (derivation_edges st deriv target sources) = node_index st \<and>
   hyperedges (derivation_edges st deriv target sources) = hyperedges st \<and>
   g_nodes (graph (derivation_edges st deriv target sources)) = g_nodes (graph st)"
  by (induction sources arbitrary: st) (simp_all add: Let_def)

lemma derivation_edges_fields [simp]:
  "node_index (derivation_edges st deriv target sources) = node_index st"
  "hyperedges (derivation_edges st deriv target sources) = hyperedges st"
  "g_nodes (graph (derivation_edges st deriv target sources)) = g_nodes (graph st)"
  using derivation_edges_keeps [of st deriv target sources] by simp_all

lemma derivation_edges_endpoints:
  "map endpoints (g_edges (graph (derivation_edges st deriv target sources))) =
     map endpoints (g_edges (graph st)) @
     [(resolve (node_index st) s, target).
        s \<leftarrow> sources,
        has_node (graph st) (resolve (node_index st) s) \<and> has_node (graph st) target]"
proof (induction sources arbitrary: st)
  case Nil
  show ?case by simp
next
  case (Cons s sources)
  let ?st = "add_edge_if_present st (resolve (node_index st) s) target (derivation_attrs deriv)"
  from Cons.IH [of ?st] show ?case
    by (simp add: Let_def endpoints_add_edge_if_present cong: if_cong)
qed

lemma derivation_edges_closed:
  "edges_closed (graph st) \<Longrightarrow> edges_closed (graph (derivation_edges st deriv target sources))"
  by (induction sources arbitrary: st)
     (simp_all add: Let_def edges_closed_add_edge_if_present)

lemma derivation_pairs_spec_cong:
  "node_index st' = node_index st \<Longrightarrow> g_nodes (graph st') = g_nodes (graph st) \<Longrightarrow>
   derivation_pairs_spec st' deriv = derivation_pairs_spec st deriv"
  by (simp add: derivation_pairs_spec_def has_node_def cong: if_cong)

lemma add_derivations_keeps:
  "node_index (add_derivations st ders) = node_index st \<and>
   g_nodes (graph (add_derivations st ders)) = g_nodes (graph st) \<and>
   hyperedges (add_derivations st ders) = hyperedges st @ ders"
  by (induction ders arbitrary: st) (simp_all add: Let_def)

lemma add_derivations_fields [simp]:
  "node_index (add_derivations st ders) = node_index st"
  "g_nodes (graph (add_derivations st ders)) = g_nodes (graph st)"
  "hyperedges (add_derivations st ders) = hyperedges st @ ders"
  using add_derivations_keeps [of st ders] by simp_all

lemma add_derivations_closed:
  "edges_closed (graph st) \<Longrightarrow> edges_closed (graph (add_derivations st ders))"
  by (induction ders arbitrary: st) (simp_all add: Let_def derivation_edges_closed)

lemma add_derivations_endpoints:
  "map endpoints (g_edges (graph (add_derivations st ders))) =
     map endpoints (g_edges (graph st)) @ concat (map (derivation_pairs_spec st) ders)"
proof (induction ders arbitrary: st)
  case Nil
  show ?case by simp
next
  case (Cons deriv ders)
  let ?st1 = "derivation_edges st deriv (dict_get (he_target_node deriv) '''')
                (dict_get (he_source_nodes deriv) [])"
  let ?st2 = "?st1\<lparr>hyperedges := hyperedges ?st1 @ [deriv]\<rparr>"
  have "derivation_pairs_spec ?st2 = derivation_pairs_spec st"
    by (rule ext, rule derivation_pairs_spec_cong) simp_all
  with Cons.IH [of ?st2] show ?case
    by (simp add: Let_def derivation_edges_endpoints)
       (simp add: derivation_pairs_spec_def)
qed

lemma add_relationships_endpoints:
  "add_relationships st rels = Inr st' \<Longrightarrow>
     map endpoints (g_edges (graph st')) =
       map endpoints (g_edges (graph st)) @
       concat (map (\<lambda>rel. relationship_pairs_spec st (dict_get (he_source_node rel) [])
                            (relationship_targets rel)) rels)"
proof (induction rels arbitrary: st)
  case Nil
  then show ?case by simp
next
  case (Cons rel rels)
  then obtain source where source: "he_source_node rel = Some source"
    by (cases "he_source_node rel") simp_all
  let ?st1 = "relationship_edges st rel source (relationship_targets rel)"
  let ?st2 = "if 1 < length (relationship_targets rel)
              then ?st1\<lparr>hyperedges := hyperedges ?st1 @ [rel]\<rparr> else ?st1"
  from Cons.prems source have run: "add_relationships ?st2 rels = Inr st'"
    by (simp add: Let_def)
  have "relationship_pairs_spec ?st2 = relationship_pairs_spec st"
    by (intro ext relationship_pairs_spec_cong) simp_all
  with Cons.IH [OF run] source show ?case
    by (simp add: relationship_edges_endpoints dict_get_def)
qed

subsection \<open>The whole build\<close>

lemma lookup_Inr [simp]: "lookup key v = Inr x \<longleftrightarrow> v = Some x"
  by (simp add: lookup_def split: option.split)

lemma lookup_Inl [simp]: "lookup key v = Inl e \<longleftrightarrow> v = None \<and> e = KeyError key"
  by (auto simp: lookup_def split: option.split)

lemma and_then_Inr [simp]: "and_then r f = Inr y \<longleftrightarrow> (\<exists>x. r = Inr x \<and> f x = Inr y)"
  by (simp add: and_then_def split: sum.split)

lemma and_then_Inl: "and_then r f = Inl e \<longleftrightarrow> r = Inl e \<or> (\<exists>x. r = Inr x \<and> f x = Inl e)"
  by (simp add: and_then_def split: sum.split)

lemma add_concepts_eq: "add_concepts st cs = add_nodes concept_attrs st cs"
  by (cases cs) (simp_all add: add_concepts_def)

lemmas add_group_defs = add_principles_def add_rules_def add_concepts_eq add_domains_def

lemma load_from_tuples_nested:
  "load_from_tuples data = Inr st \<longleftrightarrow>
     (\<exists>ns. data_nodes data = Some ns \<and> (\<exists>ps. principles ns = Some ps \<and>
      (\<exists>st1. add_nodes principle_attrs init ps = Inr st1 \<and>
      (\<exists>rs. rules ns = Some rs \<and> (\<exists>st2. add_nodes rule_attrs st1 rs = Inr st2 \<and>
      (\<exists>cs. concepts ns = Some cs \<and> (\<exists>st3. add_nodes concept_attrs st2 cs = Inr st3 \<and>
      (\<exists>ds. domains ns = Some ds \<and> (\<exists>st4. add_nodes domain_attrs st3 ds = Inr st4 \<and>
      (\<exists>hs. data_hyperedges data = Some hs \<and> (\<exists>rels. relationships hs = Some rels \<and>
      (\<exists>st5. add_relationships st4 rels = Inr st5 \<and>
      (\<exists>ders. derivations hs = Some ders \<and> st = add_derivations st5 ders)))))))))))))"
  unfolding load_from_tuples_def add_group_defs
  by (simp only: and_then_Inr lookup_Inr sum.inject eq_commute [of _ st])

lemma load_from_tuples_Inr:
  "load_from_tuples data = Inr st \<longleftrightarrow>
     (\<exists>ns ps st1 rs st2 cs st3 ds st4 hs rels st5 ders.
        data_nodes data = Some ns \<and> principles ns = Some ps \<and>
        add_nodes principle_attrs init ps = Inr st1 \<and>
        rules ns = Some rs \<and> add_nodes rule_attrs st1 rs = Inr st2 \<and>
        concepts ns = Some cs \<and> add_nodes concept_attrs st2 cs = Inr st3 \<and>
        domains ns = Some ds \<and> add_nodes domain_attrs st3 ds = Inr st4 \<and>
        data_hyperedges data = Some hs \<and> relationships hs = Some rels \<and>
        add_relationships st4 rels = Inr st5 \<and>
        derivations hs = Some ders \<and> st = add_derivations st5 ders)"
  unfolding load_from_tuples_nested
  by (simp only: ex_simps conj_assoc)

definition raises_KeyError :: "error + 'a \<Rightarrow> bool" where
  "raises_KeyError r \<longleftrightarrow> (\<forall>e. r = Inl e \<longrightarrow> (\<exists>key. e = KeyError key))"

lemma raises_KeyError_and_then:
  "raises_KeyError r \<Longrightarrow> (\<And>x. raises_KeyError (f x)) \<Longrightarrow> raises_KeyError (and_then r f)"
  by (auto simp: raises_KeyError_def and_then_Inl)

lemma raises_KeyError_basic:
  "raises_KeyError (lookup key v)" "raises_KeyError (Inr x)"
  "raises_KeyError (add_nodes attrs st ps)" "raises_KeyError (add_relationships st rels)"
  by (auto simp: raises_KeyError_def dest: add_nodes_error add_relationships_error)

lemma index_closed_transfer:
  "node_index st' = node_index st \<Longrightarrow> g_nodes (graph st') = g_nodes (graph st) \<Longrightarrow>
   index_closed st \<Longrightarrow> index_closed st'"
  by (simp add: index_closed_def has_node_def)

lemma init_closed: "edges_closed (graph init)" "index_closed init"
  by (simp_all add: edges_closed_def index_closed_def init_def empty_graph_def)

text \<open>The list of node ids the payload declares, group after group.\<close>

definition declared_ids :: "payload \<Rightarrow> string list" where
  "declared_ids data =
     (case data_nodes data of
        None \<Rightarrow> []
      | Some ns \<Rightarrow>
          List.map_filter n_node_id
            (dict_get (principles ns) [] @ dict_get (rules ns) [] @
             dict_get (concepts ns) [] @ dict_get (domains ns) []))"

lemma set_map_filter_ids: "set (List.map_filter n_node_id ps) = {i. Some i \<in> n_node_id ` set ps}"
proof -
  have "i \<in> set (List.map_filter n_node_id ps) \<longleftrightarrow> Some i \<in> n_node_id ` set ps" for i
    by (induction ps) (auto simp: List.map_filter_simps split: option.splits)
  then show ?thesis
    by blast
qed

lemma build_invariants:
  assumes "load_from_tuples data = Inr st"
  shows "edges_closed (graph st)" and "index_closed st"
    and "dom (g_nodes (graph st)) = set (declared_ids data)"
proof -
  from assms obtain ns ps st1 rs st2 cs st3 ds st4 hs rels st5 ders where
    groups: "data_nodes data = Some ns" "principles ns = Some ps" "rules ns = Some rs"
      "concepts ns = Some cs" "domains ns = Some ds" "data_hyperedges data = Some hs"
      "relationships hs = Some rels" "derivations hs = Some ders"
    and n1: "add_nodes principle_attrs init ps = Inr st1"
    and n2: "add_nodes rule_attrs st1 rs = Inr st2"
    and n3: "add_nodes concept_attrs st2 cs = Inr st3"
    and n4: "add_nodes domain_attrs st3 ds = Inr st4"
    and e1: "add_relationships st4 rels = Inr st5"
    and st: "st = add_derivations st5 ders"
    unfolding load_from_tuples_Inr by (elim exE conjE) (rule that; assumption)
  have c4: "edges_closed (graph st4)"
    by (rule add_nodes_edges_closed [OF n4 add_nodes_edges_closed [OF n3
          add_nodes_edges_closed [OF n2 add_nodes_edges_closed [OF n1 init_closed(1)]]]])
  have i4: "index_closed st4"
    by (rule add_nodes_index_closed [OF n4 add_nodes_index_closed [OF n3
          add_nodes_index_closed [OF n2 add_nodes_index_closed [OF n1 init_closed(2)]]]])
  have d1: "dom (g_nodes (graph st1)) = {i. Some i \<in> n_node_id ` set ps}"
    using add_nodes_fields [OF n1] by (simp add: init_def empty_graph_def)
  have d2: "dom (g_nodes (graph st2)) = {i. Some i \<in> n_node_id ` set (ps @ rs)}"
    using add_nodes_fields [OF n2] d1 by auto
  have d3: "dom (g_nodes (graph st3)) = {i. Some i \<in> n_node_id ` set (ps @ rs @ cs)}"
    using add_nodes_fields [OF n3] d2 by auto
  have d4: "dom (g_nodes (graph st4)) = {i. Some i \<in> n_node_id ` set (ps @ rs @ cs @ ds)}"
    using add_nodes_fields [OF n4] d3 by auto
  note f5 = add_relationships_fields [OF e1]
  show "edges_closed (graph st)"
    unfolding st by (intro add_derivations_closed add_relationships_closed [OF e1] c4)
  have "index_closed st5"
    using f5 i4 by (auto intro: index_closed_transfer [of st5 st4])
  then show "index_closed st"
    unfolding st by (rule index_closed_transfer [rotated 2]) simp_all
  show "dom (g_nodes (graph st)) = set (declared_ids data)"
    unfolding st using f5 d4 groups
    by (simp add: declared_ids_def set_map_filter_ids dict_get_def)
qed

text \<open>When the build succeeds, and which exception it raises otherwise.\<close>

definition groups_present :: "payload \<Rightarrow> bool" where
  "groups_present data \<longleftrightarrow>
     (case data_nodes data of
        None \<Rightarrow> False
      | Some ns \<Rightarrow> principles ns \<noteq> None \<and> rules ns \<noteq> None \<and>
                  concepts ns \<noteq> None \<and> domains ns \<noteq> None) \<and>
     (case data_hyperedges data of
        None \<Rightarrow> False
      | Some hs \<Rightarrow> relationships hs \<noteq> None \<and> derivations hs \<noteq> None)"

definition records_keyed :: "payload \<Rightarrow> bool" where
  "records_keyed data \<longleftrightarrow>
     (case data_nodes data of
        None \<Rightarrow> True
      | Some ns \<Rightarrow>
          list_all (\<lambda>p. n_node_id p \<noteq> None)
            (dict_get (principles ns) [] @ dict_get (rules ns) [] @
             dict_get (concepts ns) [] @ dict_get (domains ns) [])) \<and>
     (case data_hyperedges data of
        None \<Rightarrow> True
      | Some hs \<Rightarrow> list_all (\<lambda>rel. he_source_node rel \<noteq> None) (dict_get (relationships hs) []))"

lemma add_nodes_total:
  "\<forall>p \<in> set ps. n_node_id p \<noteq> None \<Longrightarrow> \<exists>st'. add_nodes attrs st ps = Inr st'"
  using add_nodes_succeeds [of attrs st ps] by blast

lemma add_relationships_total:
  "\<forall>rel \<in> set rels. he_source_node rel \<noteq> None \<Longrightarrow> \<exists>st'. add_relationships st rels = Inr st'"
  using add_relationships_succeeds [of st rels] by blast

lemma load_succeeds_if:
  assumes "groups_present data" and "records_keyed data"
  shows "\<exists>st. load_from_tuples data = Inr st"
proof -
  from assms(1) obtain ns hs ps rs cs ds rels ders where
    groups: "data_nodes data = Some ns" "principles ns = Some ps" "rules ns = Some rs"
      "concepts ns = Some cs" "domains ns = Some ds" "data_hyperedges data = Some hs"
      "relationships hs = Some rels" "derivations hs = Some ders"
    by (auto simp: groups_present_def split: option.splits)
  from assms(2) groups have keyed:
    "\<forall>p \<in> set ps. n_node_id p \<noteq> None" "\<forall>p \<in> set rs. n_node_id p \<noteq> None"
    "\<forall>p \<in> set cs. n_node_id p \<noteq> None" "\<forall>p \<in> set ds. n_node_id p \<noteq> None"
    "\<forall>rel \<in> set rels. he_source_node rel \<noteq> None"
    by (auto simp: records_keyed_def dict_get_def list_all_iff)
  obtain st1 where n1: "add_nodes principle_attrs init ps = Inr st1"
    using add_nodes_total [OF keyed(1)] by blast
  obtain st2 where n2: "add_nodes rule_attrs st1 rs = Inr st2"
    using add_nodes_total [OF keyed(2)] by blast
  obtain st3 where n3: "add_nodes concept_attrs st2 cs = Inr st3"
    using add_nodes_total [OF keyed(3)] by blast
  obtain st4 where n4: "add_nodes domain_attrs st3 ds = Inr st4"
    using add_nodes_total [OF keyed(4)] by blast
  obtain st5 where e1: "add_relationships st4 rels = Inr st5"
    using add_relationships_total [OF keyed(5)] by blast
  show ?thesis
    unfolding load_from_tuples_Inr
    using groups n1 n2 n3 n4 e1 by blast
qed

lemma load_succeeds_only_if:
  assumes "load_from_tuples data = Inr st"
  shows "groups_present data \<and> records_keyed data"
proof -
  from assms obtain ns ps st1 rs st2 cs st3 ds st4 hs rels st5 ders where
    groups: "data_nodes data = Some ns" "principles ns = Some ps" "rules ns = Some rs"
      "concepts ns = Some cs" "domains ns = Some ds" "data_hyperedges data = Some hs"
      "relationships hs = Some rels" "derivations hs = Some ders"
    and n1: "add_nodes principle_attrs init ps = Inr st1"
    and n2: "add_nodes rule_attrs st1 rs = Inr st2"
    and n3: "add_nodes concept_attrs st2 cs = Inr st3"
    and n4: "add_nodes domain_attrs st3 ds = Inr st4"
    and e1: "add_relationships st4 rels = Inr st5"
    unfolding load_from_tuples_Inr by (elim exE conjE) (rule that; assumption)
  have "\<forall>p \<in> set ps. n_node_id p \<noteq> None"
    using add_nodes_succeeds [of principle_attrs init ps] n1 by simp
  moreover have "\<forall>p \<in> set rs. n_node_id p \<noteq> None"
    using add_nodes_succeeds [of rule_attrs st1 rs] n2 by simp
  moreover have "\<forall>p \<in> set cs. n_node_id p \<noteq> None"
    using add_nodes_succeeds [of concept_attrs st2 cs] n3 by simp
  moreover have "\<forall>p \<in> set ds. n_node_id p \<noteq> None"
    using add_nodes_succeeds [of domain_attrs st3 ds] n4 by simp
  moreover have "\<forall>rel \<in> set rels. he_source_node rel \<noteq> None"
    using add_relationships_succeeds [of st4 rels] e1 by simp
  ultimately have keyed:
    "\<forall>p \<in> set (ps @ rs @ cs @ ds). n_node_id p \<noteq> None"
    "\<forall>rel \<in> set rels. he_source_node rel \<noteq> None"
    by auto
  with groups show ?thesis
    by (simp add: groups_present_def records_keyed_def dict_get_def list_all_iff)
qed

lemma load_error_is_KeyError:
  assumes "load_from_tuples data = Inl e"
  shows "\<exists>key. e = KeyError key"
proof -
  have "raises_KeyError (load_from_tuples data)"
    unfolding load_from_tuples_def add_group_defs
    by (intro raises_KeyError_and_then raises_KeyError_basic)
  with assms show ?thesis
    by (simp add: raises_KeyError_def)
qed

section \<open>Further payloads\<close>

text \<open>The four groups the specification calls required, and neither of the other two.\<close>

definition no_concepts_payload :: payload where
  "no_concepts_payload =
     \<lparr>data_nodes = Some \<lparr>principles = Some [P1], rules = Some [R1], concepts = None,
                          domains = None\<rparr>,
      data_hyperedges = Some \<lparr>relationships = Some [], derivations = Some []\<rparr>\<rparr>"

text \<open>A relationship hyperedge whose single target names no node.\<close>

definition dangling_relationship :: hyperedge_in where
  "dangling_relationship =
     blank_hyperedge\<lparr>he_source_node := Some ''pacta-sunt-servanda'',
                     he_target_nodes := Some (Listed [''no-such-principle''])\<rparr>"

definition dangling_payload :: payload where
  "dangling_payload = payload_of [P1] [] [dangling_relationship] []"

text \<open>A relationship hyperedge with two targets, of which only the first is a node.\<close>

definition half_dangling_relationship :: hyperedge_in where
  "half_dangling_relationship =
     blank_hyperedge\<lparr>he_source_node := Some ''pacta-sunt-servanda'',
                     he_target_nodes := Some (Listed [''good-faith'', ''no-such-principle''])\<rparr>"

text \<open>A derivation hyperedge that names its target rule by name, not by id.\<close>

definition named_target_payload :: payload where
  "named_target_payload =
     payload_of [P1] [R1] []
       [blank_hyperedge\<lparr>he_source_nodes := Some [''pacta-sunt-servanda''],
                        he_target_node := Some ''enforce-contract''\<rparr>]"

text \<open>The state a build leaves; the fresh state stands in when the build raises.\<close>

definition built :: "payload \<Rightarrow> hypergraph" where
  "built data = (case load_from_tuples data of Inl e \<Rightarrow> init | Inr st \<Rightarrow> st)"

lemma built_eq: "\<not> isl (load_from_tuples data) \<Longrightarrow> load_from_tuples data = Inr (built data)"
  by (cases "load_from_tuples data") (simp_all add: built_def)

lemma scenario_builds: "load_from_tuples scenario_payload = Inr (built scenario_payload)"
  by (rule built_eq) code_simp

section \<open>The claims about the builder\<close>

text \<open>
  C3 (as amended). The build succeeds exactly when all six groups
  \<^verbatim>\<open>nodes.principles\<close>, \<^verbatim>\<open>nodes.rules\<close>, \<^verbatim>\<open>nodes.concepts\<close>, \<^verbatim>\<open>nodes.domains\<close>,
  \<^verbatim>\<open>hyperedges.relationships\<close> and \<^verbatim>\<open>hyperedges.derivations\<close> are present, every node record has
  a \<^verbatim>\<open>node_id\<close> and every relationship a \<^verbatim>\<open>source_node\<close>; otherwise it raises \<open>KeyError\<close>.
  \<^verbatim>\<open>nodes.concepts\<close> and \<^verbatim>\<open>nodes.domains\<close> may be empty lists but may not be left out.
\<close>

theorem load_from_tuples_succeeds_iff:
  "((\<exists>st. load_from_tuples data = Inr st) \<longleftrightarrow> groups_present data \<and> records_keyed data)
   \<and> raises_KeyError (load_from_tuples data)"
proof -
  have "raises_KeyError (load_from_tuples data)"
    by (auto simp: raises_KeyError_def dest: load_error_is_KeyError)
  then show ?thesis
    using load_succeeds_if [of data] load_succeeds_only_if [of data] by blast
qed

theorem load_from_tuples_succeeds_iff_witness:
  "(\<exists>st. load_from_tuples scenario_payload = Inr st)
   \<and> groups_present scenario_payload \<and> records_keyed scenario_payload"
proof -
  have "groups_present scenario_payload \<and> records_keyed scenario_payload"
    by code_simp
  with load_from_tuples_succeeds_iff [of scenario_payload] show ?thesis
    by blast
qed

text \<open>
  C3 (as stated) fails: a payload with the four groups called required and without
  \<^verbatim>\<open>nodes.concepts\<close> and \<^verbatim>\<open>nodes.domains\<close> does not build; \<^verbatim>\<open>data['nodes']['concepts']\<close> raises.
\<close>

theorem missing_concepts_counterexample:
  "load_from_tuples no_concepts_payload = Inl (KeyError ''concepts'')"
  by (simp add: load_from_tuples_def no_concepts_payload_def and_then_def lookup_def
      add_group_defs P1_def R1_def blank_node_def)

text \<open>
  C4. After a successful build every edge has its source and its target in the node set, and
  the node set is exactly the set of declared node ids: no endpoint was created on the fly.
  An edge with a resolved end that is no node is skipped, in the relationship loop and in the
  derivation loop alike, and the loop goes on with the state unchanged.
\<close>

theorem built_edges_have_endpoints:
  assumes "load_from_tuples data = Inr st"
  shows "(\<forall>e \<in> set (g_edges (graph st)).
            has_node (graph st) (e_source e) \<and> has_node (graph st) (e_target e))
    \<and> dom (g_nodes (graph st)) = set (declared_ids data)
    \<and> (\<not> (has_node (graph q) (resolve (node_index q) source) \<and>
            has_node (graph q) (resolve (node_index q) t))
        \<longrightarrow> relationship_edges q rel source [Some t] = q)
    \<and> (\<not> (has_node (graph q) (resolve (node_index q) s) \<and> has_node (graph q) target)
        \<longrightarrow> derivation_edges q deriv target [s] = q)"
  using build_invariants(1,3) [OF assms]
  by (simp add: edges_closed_def add_edge_if_present_def Let_def)

theorem built_edges_have_endpoints_witness:
  "load_from_tuples scenario_payload = Inr (built scenario_payload)
   \<and> map endpoints (g_edges (graph (built scenario_payload))) = [(''P1'', ''P2''), (''P1'', ''R1'')]
   \<and> dom (g_nodes (graph (built scenario_payload))) = {''P1'', ''P2'', ''R1''}
   \<and> \<not> has_node (graph (built scenario_payload))
          (resolve (node_index (built scenario_payload)) ''no-such-principle'')
   \<and> relationship_edges (built scenario_payload) dangling_relationship ''pacta-sunt-servanda''
        [Some ''no-such-principle''] = built scenario_payload
   \<and> derivation_edges (built scenario_payload) blank_hyperedge ''R1'' [''no-such-principle'']
        = built scenario_payload"
proof -
  have ids: "declared_ids scenario_payload = [''P1'', ''P2'', ''R1'']"
    by code_simp
  have edges: "map endpoints (g_edges (graph (built scenario_payload)))
      = [(''P1'', ''P2''), (''P1'', ''R1'')]"
    by code_simp
  have missing: "\<not> has_node (graph (built scenario_payload))
      (resolve (node_index (built scenario_payload)) ''no-such-principle'')"
    by code_simp
  from built_edges_have_endpoints [OF scenario_builds,
      of "built scenario_payload" "''pacta-sunt-servanda''" "''no-such-principle''"
         dangling_relationship "''no-such-principle''" "''R1''" blank_hyperedge]
    scenario_builds ids edges missing
  show ?thesis
    by simp
qed

text \<open>
  C5 (as amended). A derivation hyperedge has its \<^verbatim>\<open>source_nodes\<close> resolved through the name
  index (a name of the index becomes its node id, anything else passes through unchanged), but
  its \<^verbatim>\<open>target_node\<close> is taken as it stands, as a node id, for the existence check and for the
  edge: the derivation loop adds exactly the pairs of \<open>derivation_pairs_spec\<close>.
\<close>

theorem derivation_target_is_not_resolved:
  "map endpoints (g_edges (graph (add_derivations st ders))) =
     map endpoints (g_edges (graph st)) @ concat (map (derivation_pairs_spec st) ders)"
  by (rule add_derivations_endpoints)

text \<open>
  C5 (as stated) fails: a derivation from \<^verbatim>\<open>["pacta-sunt-servanda"]\<close> whose \<^verbatim>\<open>target_node\<close> is
  the name \<^verbatim>\<open>"enforce-contract"\<close>, a key of the index, creates no edge to \<^verbatim>\<open>R1\<close>: the build
  ends with no edge at all.
\<close>

theorem named_derivation_target_counterexample:
  "node_index (built named_target_payload) ''enforce-contract'' = Some ''R1''
   \<and> map endpoints (g_edges (graph (built named_target_payload))) = []"
  by code_simp

text \<open>
  C6 (as amended). In the relationship loop an edge is added for exactly the targets whose
  resolved id, like the resolved source, is a node; the others are skipped without an error.
  The hyperedge record is retained if and only if it lists more than one target, whether or
  not they resolve; a relationship with a single target is never retained.
\<close>

theorem relationships_retained_iff_many_targets:
  assumes "add_relationships st rels = Inr st'"
  shows "hyperedges st' =
           hyperedges st @ filter (\<lambda>rel. 1 < length (relationship_targets rel)) rels
    \<and> map endpoints (g_edges (graph st')) =
        map endpoints (g_edges (graph st)) @
        concat (map (\<lambda>rel. relationship_pairs_spec st (dict_get (he_source_node rel) [])
                             (relationship_targets rel)) rels)"
  using add_relationships_fields [OF assms] add_relationships_endpoints [OF assms]
  by simp

text \<open>
  C6 (as stated) fails: the relationship hyperedge whose single target matches no node
  produces no edge and is not in the retained hyperedge list, which stays empty.
\<close>

theorem dangling_relationship_counterexample:
  "map endpoints (g_edges (graph (built dangling_payload))) = []
   \<and> find_related_principles (built dangling_payload) ''pacta-sunt-servanda'' = Inr []
   \<and> hyperedges (built dangling_payload) = []"
  by code_simp

text \<open>Two principles and no edge yet: a state on which the relationship loop is run below.\<close>

definition two_principles :: hypergraph where
  "two_principles = built (payload_of [P1, P2] [] [] [])"

theorem relationships_retained_iff_many_targets_witness:
  "add_relationships two_principles [dangling_relationship, half_dangling_relationship] =
     Inr (projr (add_relationships two_principles
                   [dangling_relationship, half_dangling_relationship]))
   \<and> hyperedges (projr (add_relationships two_principles
                          [dangling_relationship, half_dangling_relationship]))
       = [half_dangling_relationship]
   \<and> map endpoints (g_edges (graph (projr (add_relationships two_principles
                          [dangling_relationship, half_dangling_relationship]))))
       = [(''P1'', ''P2'')]"
proof -
  let ?rels = "[dangling_relationship, half_dangling_relationship]"
  have "\<not> isl (add_relationships two_principles ?rels)"
    by code_simp
  then have ok: "add_relationships two_principles ?rels =
      Inr (projr (add_relationships two_principles ?rels))"
    by simp
  have kept: "hyperedges two_principles @
      filter (\<lambda>rel. 1 < length (relationship_targets rel)) ?rels = [half_dangling_relationship]"
    by code_simp
  have pairs: "map endpoints (g_edges (graph two_principles)) @
      concat (map (\<lambda>rel. relationship_pairs_spec two_principles
                            (dict_get (he_source_node rel) []) (relationship_targets rel)) ?rels)
      = [(''P1'', ''P2'')]"
    by code_simp
  from relationships_retained_iff_many_targets [OF ok] ok kept pairs show ?thesis
    by simp
qed

section \<open>The claims about the name index\<close>

lemma set_edges_from: "set (edges_from G u) \<subseteq> set (g_edges G)"
  by (auto simp: edges_from_def Let_def)

lemma set_out_edges: "set (out_edges G n) \<subseteq> set (g_edges G)"
  using set_edges_from by (fastforce simp: out_edges_def)

lemma node_data_of_present: "has_node G n \<Longrightarrow> \<exists>d. node_data_of G n = Inr d"
  by (auto simp: has_node_def node_data_of_def)

lemma derived_rules_total:
  "\<forall>e \<in> set es. has_node G (e_target e) \<Longrightarrow> \<exists>r. derived_rules G es = Inr r"
proof (induction es)
  case Nil
  show ?case by simp
next
  case (Cons e es)
  then obtain d r where "node_data_of G (e_target e) = Inr d" "derived_rules G es = Inr r"
    using node_data_of_present [of G "e_target e"] by auto
  then show ?case
    by simp
qed

lemma find_rules_total:
  assumes "edges_closed (graph st)"
  shows "\<exists>r. find_rules_derived_from_principle st nm = Inr r"
proof -
  have "\<forall>e \<in> set (out_edges (graph st) n). has_node (graph st) (e_target e)" for n
    using assms set_out_edges [of "graph st" n] by (auto simp: edges_closed_def)
  then show ?thesis
    by (simp add: find_rules_derived_from_principle_def Let_def derived_rules_total)
qed

lemma truthy_Some: "truthy v \<Longrightarrow> v = Some (dict_get v [])"
  by (cases v) (simp_all add: truthy_def dict_get_def)

lemma get_rule_by_name_total:
  assumes "index_closed st"
  shows "\<exists>r. get_rule_by_name st nm = Inr r"
proof (cases "truthy (node_index st nm)")
  case True
  then have "has_node (graph st) (dict_get (node_index st nm) [])"
    using assms truthy_Some unfolding index_closed_def by blast
  from node_data_of_present [OF this] True show ?thesis
    by (auto simp: get_rule_by_name_def Let_def)
next
  case False
  then show ?thesis
    by (simp add: get_rule_by_name_def Let_def)
qed

text \<open>
  C10. After a successful build every value of the name index is a node of the graph. Hence
  a query that resolves a name and reads the node's attributes never meets a missing node:
  \<^verbatim>\<open>get_rule_by_name\<close> and \<^verbatim>\<open>find_rules_derived_from_principle\<close> return for every name, with
  no \<open>KeyError\<close>.
\<close>

theorem name_index_points_at_nodes:
  assumes "load_from_tuples data = Inr st"
  shows "(\<forall>nm i. node_index st nm = Some i \<longrightarrow> has_node (graph st) i)
    \<and> (\<forall>nm. \<exists>r. get_rule_by_name st nm = Inr r)
    \<and> (\<forall>nm. \<exists>r. find_rules_derived_from_principle st nm = Inr r)"
  using build_invariants(1,2) [OF assms] get_rule_by_name_total find_rules_total
  by (simp add: index_closed_def)

theorem name_index_points_at_nodes_witness:
  "load_from_tuples scenario_payload = Inr (built scenario_payload)
   \<and> node_index (built scenario_payload) ''enforce-contract'' = Some ''R1''
   \<and> has_node (graph (built scenario_payload)) ''R1''
   \<and> \<not> isl (get_rule_by_name (built scenario_payload) ''enforce-contract'')
   \<and> \<not> isl (find_rules_derived_from_principle (built scenario_payload) ''pacta-sunt-servanda'')"
proof -
  have idx: "node_index (built scenario_payload) ''enforce-contract'' = Some ''R1''"
    by code_simp
  from name_index_points_at_nodes [OF scenario_builds] have
    "has_node (graph (built scenario_payload)) ''R1''"
    "\<exists>r. get_rule_by_name (built scenario_payload) ''enforce-contract'' = Inr r"
    "\<exists>r. find_rules_derived_from_principle (built scenario_payload) ''pacta-sunt-servanda'' = Inr r"
    using idx by blast+
  with scenario_builds idx show ?thesis
    by auto
qed

section \<open>The scenario of the specification\<close>

text \<open>
  C2 (as amended). In the scenario, \<^verbatim>\<open>build_inference_chain\<close> from \<^verbatim>\<open>"pacta-sunt-servanda"\<close> to
  \<^verbatim>\<open>"enforce-contract"\<close> returns the two steps below, and their path confidence is
  1.0 * 0.95 * 0.95 = 0.9025: the principle's confidence, the derivation edge's default
  \<^verbatim>\<open>confidence_impact\<close>, and the rule's own confidence 0.95.
\<close>

theorem scenario_chain_confidence:
  "inference_chain_of scenario_payload ''pacta-sunt-servanda'' ''enforce-contract'' =
     Inr (Some
       [\<lparr>c_step = 1, c_id = ''P1'', c_name = ''pacta-sunt-servanda'', c_type = ''principle'',
         c_level = Some 1, c_confidence = Some 1,
         c_edge_to_next = Some \<lparr>en_type = ''derivation'', en_inference_type = ''deductive'',
                                 en_confidence_impact = Some (95 / 100)\<rparr>\<rparr>,
        \<lparr>c_step = 2, c_id = ''R1'', c_name = ''enforce-contract'', c_type = ''rule'',
         c_level = Some 2, c_confidence = Some (95 / 100), c_edge_to_next = None\<rparr>])
   \<and> inference_chain_confidence scenario_payload ''pacta-sunt-servanda'' ''enforce-contract'' =
       Inr (Some (2, 9025 / 10000))"
  by code_simp

text \<open>
  C2 (as stated) fails: the chain has two steps, but its path confidence is not 0.95.
\<close>

theorem scenario_chain_confidence_counterexample:
  "inference_chain_confidence scenario_payload ''pacta-sunt-servanda'' ''enforce-contract'' \<noteq>
     Inr (Some (2, 95 / 100))"
  by code_simp

section \<open>Edge keys and inference chains\<close>

text \<open>
  Edges are only ever appended, so among the parallel edges of an ordered pair the first one
  recorded has key 0.
\<close>

definition first_key_zero :: "edge list \<Rightarrow> bool" where
  "first_key_zero es \<longleftrightarrow> (\<forall>u v e rest. filter (parallel u v) es = e # rest \<longrightarrow> e_key e = 0)"

lemma first_key_zero_add_edge:
  assumes "first_key_zero (g_edges G)"
  shows "first_key_zero (g_edges (add_edge G u v a))"
  unfolding first_key_zero_def
proof (intro allI impI)
  fix u' v' e rest
  let ?G1 = "ensure_node (ensure_node G u) v"
  let ?new = "\<lparr>e_source = u, e_target = v, e_key = new_edge_key ?G1 u v, e_attrs = a\<rparr>"
  assume *: "filter (parallel u' v') (g_edges (add_edge G u v a)) = e # rest"
  show "e_key e = 0"
  proof (cases "filter (parallel u' v') (g_edges G)")
    case Nil
    with * have "parallel u' v' ?new" and e: "e = ?new"
      by (auto simp: g_edges_add_edge split: if_splits)
    then have "u' = u" "v' = v"
      by (simp_all add: parallel_def)
    with Nil have "new_edge_key ?G1 u v = 0"
      by (simp add: new_edge_key_def)
    with e show ?thesis
      by simp
  next
    case (Cons e' rest')
    with * have "e = e'"
      by (simp add: g_edges_add_edge)
    with Cons assms show ?thesis
      by (auto simp: first_key_zero_def)
  qed
qed

lemma first_key_zero_add_edge_if_present:
  "first_key_zero (g_edges (graph st)) \<Longrightarrow>
   first_key_zero (g_edges (graph (add_edge_if_present st s t a)))"
  by (simp add: add_edge_if_present_def first_key_zero_add_edge)

lemma first_key_zero_relationship_edges:
  "first_key_zero (g_edges (graph st)) \<Longrightarrow>
   first_key_zero (g_edges (graph (relationship_edges st rel source targets)))"
  by (induction targets arbitrary: st)
     (simp_all add: Let_def first_key_zero_add_edge_if_present split: option.split)

lemma first_key_zero_add_relationships:
  "add_relationships st rels = Inr st' \<Longrightarrow> first_key_zero (g_edges (graph st)) \<Longrightarrow>
   first_key_zero (g_edges (graph st'))"
proof (induction rels arbitrary: st)
  case Nil
  then show ?case by simp
next
  case (Cons rel rels)
  then obtain source where source: "he_source_node rel = Some source"
    by (cases "he_source_node rel") simp_all
  let ?st1 = "relationship_edges st rel source (relationship_targets rel)"
  let ?st2 = "if 1 < length (relationship_targets rel)
              then ?st1\<lparr>hyperedges := hyperedges ?st1 @ [rel]\<rparr> else ?st1"
  from Cons.prems source have run: "add_relationships ?st2 rels = Inr st'"
    by (simp add: Let_def)
  have "first_key_zero (g_edges (graph ?st2))"
    using first_key_zero_relationship_edges [OF Cons.prems(2)] by simp
  with Cons.IH [OF run] show ?case .
qed

lemma first_key_zero_derivation_edges:
  "first_key_zero (g_edges (graph st)) \<Longrightarrow>
   first_key_zero (g_edges (graph (derivation_edges st deriv target sources)))"
  by (induction sources arbitrary: st)
     (simp_all add: Let_def first_key_zero_add_edge_if_present)

lemma first_key_zero_add_derivations:
  "first_key_zero (g_edges (graph st)) \<Longrightarrow>
   first_key_zero (g_edges (graph (add_derivations st ders)))"
  by (induction ders arbitrary: st) (simp_all add: Let_def first_key_zero_derivation_edges)

lemma built_first_key_zero:
  assumes "load_from_tuples data = Inr st"
  shows "first_key_zero (g_edges (graph st))"
proof -
  from assms obtain ns ps st1 rs st2 cs st3 ds st4 hs rels st5 ders where
    n1: "add_nodes principle_attrs init ps = Inr st1"
    and n2: "add_nodes rule_attrs st1 rs = Inr st2"
    and n3: "add_nodes concept_attrs st2 cs = Inr st3"
    and n4: "add_nodes domain_attrs st3 ds = Inr st4"
    and e1: "add_relationships st4 rels = Inr st5"
    and st: "st = add_derivations st5 ders"
    and groups: "data_nodes data = Some ns" "principles ns = Some ps" "rules ns = Some rs"
      "concepts ns = Some cs" "domains ns = Some ds" "data_hyperedges data = Some hs"
      "relationships hs = Some rels" "derivations hs = Some ders"
    unfolding load_from_tuples_Inr by (elim exE conjE) (rule that; assumption)
  have "g_edges (graph st4) = []"
    using add_nodes_fields [OF n1] add_nodes_fields [OF n2] add_nodes_fields [OF n3]
      add_nodes_fields [OF n4]
    by (simp add: init_def empty_graph_def)
  then have "first_key_zero (g_edges (graph st4))"
    by (simp add: first_key_zero_def)
  then show ?thesis
    unfolding st by (intro first_key_zero_add_derivations first_key_zero_add_relationships [OF e1])
qed

lemma find_filter_Cons: "filter P xs = x # ys \<Longrightarrow> find P xs = Some x"
  by (induction xs) (auto split: if_splits)

lemma edge_to_next_of_first:
  assumes "first_key_zero (g_edges G)" and "filter (parallel u v) (g_edges G) = e # rest"
  shows "edge_to_next_of G u v = Some (edge_to_next_dict (e_attrs e))"
proof -
  from assms have "e_key e = 0"
    by (auto simp: first_key_zero_def)
  with assms(2) show ?thesis
    by (simp add: edge_to_next_of_def get_edge_data_def Let_def)
qed

subsection \<open>The steps of a chain\<close>

lemma chain_items_ids:
  "chain_items G i path = Inr chain \<Longrightarrow> map c_id chain = path"
  by (induction path arbitrary: i chain) auto

lemma chain_items_edge:
  "chain_items G i path = Inr chain \<Longrightarrow> k + 1 < length path \<Longrightarrow>
   c_edge_to_next (chain ! k) = edge_to_next_of G (path ! k) (path ! (k + 1))"
proof (induction path arbitrary: i chain k)
  case Nil
  then show ?case by simp
next
  case (Cons n path)
  from Cons.prems(1) obtain item items where
    items: "chain_items G (i + 1) path = Inr items" and
    chain: "chain = item # items" and
    edge: "c_edge_to_next item =
             (case path of [] \<Rightarrow> None | next_id # _ \<Rightarrow> edge_to_next_of G n next_id)"
    by auto
  show ?case
  proof (cases k)
    case 0
    with Cons.prems(2) chain edge show ?thesis
      by (cases path) simp_all
  next
    case (Suc j)
    with Cons.prems(2) Cons.IH [OF items, of j] chain show ?thesis
      by simp
  qed
qed

subsection \<open>Breadth-first search returns a walk\<close>

definition steps_to :: "multidigraph \<Rightarrow> string \<Rightarrow> string \<Rightarrow> bool" where
  "steps_to G a b \<longleftrightarrow> b \<in> set (successors G a)"

lemma steps_to_parallel: "steps_to G a b \<Longrightarrow> filter (parallel a b) (g_edges G) \<noteq> []"
  by (auto simp: steps_to_def successors_def edges_from_def Let_def filter_empty_conv parallel_def)

definition rev_walk :: "multidigraph \<Rightarrow> string list \<Rightarrow> bool" where
  "rev_walk G p \<longleftrightarrow> successively (\<lambda>b a. steps_to G a b) p"

lemma bfs_visit_walks:
  assumes "\<forall>q \<in> set layer. rev_walk G q" and "rev_walk G p"
    and "\<forall>v \<in> set vs. p \<noteq> [] \<longrightarrow> steps_to G (hd p) v"
  shows "\<forall>q \<in> set (fst (bfs_visit p vs (layer, seen))). rev_walk G q"
  using assms
proof (induction vs arbitrary: layer seen)
  case Nil
  then show ?case by simp
next
  case (Cons v vs)
  have walk: "rev_walk G (v # p)"
    using Cons.prems(2,3) by (cases p) (simp_all add: rev_walk_def)
  have rest: "\<forall>v \<in> set vs. p \<noteq> [] \<longrightarrow> steps_to G (hd p) v"
    using Cons.prems(3) by simp
  show ?case
  proof (cases "v \<in> set seen")
    case True
    with Cons.IH [OF Cons.prems(1,2) rest, of seen] show ?thesis
      by simp
  next
    case False
    have "\<forall>q \<in> set (layer @ [v # p]). rev_walk G q"
      using Cons.prems(1) walk by simp
    from Cons.IH [OF this Cons.prems(2) rest, of "v # seen"] False show ?thesis
      by simp
  qed
qed

lemma bfs_expand_walks:
  assumes "\<forall>q \<in> set (fst acc). rev_walk G q" and "\<forall>p \<in> set ps. rev_walk G p"
  shows "\<forall>q \<in> set (fst (bfs_expand G ps acc)). rev_walk G q"
  using assms
proof (induction ps arbitrary: acc)
  case Nil
  then show ?case by simp
next
  case (Cons p ps)
  obtain layer seen where acc: "acc = (layer, seen)"
    by (cases acc)
  show ?case
  proof (cases p)
    case Nil
    with Cons show ?thesis by simp
  next
    case (Cons u p')
    have "\<forall>q \<in> set (fst (bfs_visit p (successors G u) (layer, seen))). rev_walk G q"
      using Cons.prems \<open>p = u # p'\<close> acc
      by (intro bfs_visit_walks) (simp_all add: steps_to_def)
    with Cons.IH [of "bfs_visit p (successors G u) (layer, seen)"] Cons.prems(2)
      \<open>p = u # p'\<close> acc
    show ?thesis
      by simp
  qed
qed

lemma bfs_walk:
  "bfs G target fuel layer seen = Some path \<Longrightarrow> \<forall>p \<in> set layer. rev_walk G p \<Longrightarrow>
   successively (steps_to G) path"
proof (induction fuel arbitrary: layer seen)
  case 0
  then show ?case by simp
next
  case (Suc fuel)
  show ?case
  proof (cases "find (\<lambda>p. p \<noteq> [] \<and> hd p = target) layer")
    case (Some p)
    with Suc.prems(1) have "path = rev p"
      by simp
    moreover from Some have "p \<in> set layer"
      by (auto simp: find_Some_iff)
    ultimately show ?thesis
      using Suc.prems(2) by (simp add: rev_walk_def)
  next
    case None
    obtain layer' seen' where ex: "bfs_expand G layer ([], seen) = (layer', seen')"
      by (cases "bfs_expand G layer ([], seen)")
    with None Suc.prems(1) have run: "bfs G target fuel layer' seen' = Some path"
      by (simp split: if_splits)
    have "\<forall>q \<in> set (fst (bfs_expand G layer ([], seen))). rev_walk G q"
      using Suc.prems(2) by (intro bfs_expand_walks) simp_all
    with ex have "\<forall>q \<in> set layer'. rev_walk G q"
      by simp
    from Suc.IH [OF run this] show ?thesis .
  qed
qed

lemma shortest_path_walk:
  assumes "shortest_path G source target = Inr path"
  shows "successively (steps_to G) path"
proof -
  from assms have "bfs G target (Suc (Suc (length (g_edges G)))) [[source]] [source] = Some path"
    unfolding shortest_path_def by (simp split: if_splits option.splits del: bfs.simps)
  moreover have "\<forall>p \<in> set [[source]]. rev_walk G p"
    by (simp add: rev_walk_def)
  ultimately show ?thesis
    by (rule bfs_walk)
qed

text \<open>Two parallel derivation hyperedges from the principle to the rule.\<close>

definition parallel_payload :: payload where
  "parallel_payload =
     payload_of [P1] [R1] []
       [blank_hyperedge\<lparr>he_source_nodes := Some [''pacta-sunt-servanda''],
                        he_target_node := Some ''R1'',
                        he_inference_type := Some ''analogical'',
                        he_confidence_impact := Some (1 / 2)\<rparr>,
        blank_hyperedge\<lparr>he_source_nodes := Some [''pacta-sunt-servanda''],
                        he_target_node := Some ''R1'',
                        he_inference_type := Some ''deductive'',
                        he_confidence_impact := Some (4 / 5)\<rparr>]"

definition parallel_chain :: "chain_item list" where
  "parallel_chain =
     [\<lparr>c_step = 1, c_id = ''P1'', c_name = ''pacta-sunt-servanda'', c_type = ''principle'',
       c_level = Some 1, c_confidence = Some 1,
       c_edge_to_next = Some \<lparr>en_type = ''derivation'', en_inference_type = ''analogical'',
                               en_confidence_impact = Some (1 / 2)\<rparr>\<rparr>,
      \<lparr>c_step = 2, c_id = ''R1'', c_name = ''enforce-contract'', c_type = ''rule'',
       c_level = Some 2, c_confidence = Some (95 / 100), c_edge_to_next = None\<rparr>]"

text \<open>
  C9. In a chain returned by \<^verbatim>\<open>build_inference_chain\<close> on a built graph, two consecutive steps
  are joined by at least one edge, and the \<^verbatim>\<open>edge_to_next\<close> data of the earlier step is read
  from the first of their parallel edges in insertion order, the one with key 0; no other
  parallel edge contributes.
\<close>

theorem chain_edge_is_first_parallel_edge:
  assumes "load_from_tuples data = Inr q"
    and "build_inference_chain q start_principle end_rule = Inr (Some chain)"
    and "k + 1 < length chain"
  shows "\<exists>e rest.
           filter (parallel (c_id (chain ! k)) (c_id (chain ! (k + 1)))) (g_edges (graph q))
             = e # rest
           \<and> e_key e = 0
           \<and> c_edge_to_next (chain ! k) = Some (edge_to_next_dict (e_attrs e))"
proof -
  from assms(2) obtain path where
    path: "shortest_path (graph q) (dict_get (node_index q start_principle) [])
             (dict_get (node_index q end_rule) []) = Inr path"
    and items: "chain_items (graph q) 0 path = Inr chain"
    by (auto simp: build_inference_chain_def Let_def split: if_splits sum.splits error.splits)
  have ids: "map c_id chain = path"
    using items by (rule chain_items_ids)
  then have len: "length path = length chain"
    by (metis length_map)
  have "Suc k < length path"
    using assms(3) len by simp
  from successively_nth [OF shortest_path_walk [OF path] this]
  have "steps_to (graph q) (path ! k) (path ! Suc k)" .
  then obtain e rest where
    first: "filter (parallel (path ! k) (path ! (k + 1))) (g_edges (graph q)) = e # rest"
    using steps_to_parallel [of "graph q" "path ! k" "path ! Suc k"]
    by (cases "filter (parallel (path ! k) (path ! (k + 1))) (g_edges (graph q))") simp_all
  have zero: "first_key_zero (g_edges (graph q))"
    using assms(1) by (rule built_first_key_zero)
  have "c_edge_to_next (chain ! k) = Some (edge_to_next_dict (e_attrs e))"
    using chain_items_edge [OF items, of k] assms(3) len edge_to_next_of_first [OF zero first]
    by simp
  moreover have "e_key e = 0"
    using zero first by (auto simp: first_key_zero_def)
  moreover have "path ! k = c_id (chain ! k)" "path ! (k + 1) = c_id (chain ! (k + 1))"
    using ids assms(3) by (metis nth_map add_lessD1)+
  ultimately show ?thesis
    using first by auto
qed

theorem chain_edge_is_first_parallel_edge_witness:
  "load_from_tuples parallel_payload = Inr (built parallel_payload)
   \<and> build_inference_chain (built parallel_payload) ''pacta-sunt-servanda'' ''enforce-contract''
       = Inr (Some parallel_chain)
   \<and> map (\<lambda>e. (e_key e, ea_confidence_impact (e_attrs e)))
        (filter (parallel ''P1'' ''R1'') (g_edges (graph (built parallel_payload))))
       = [(0, Some (1 / 2)), (1, Some (4 / 5))]
   \<and> c_edge_to_next (parallel_chain ! 0) =
       Some \<lparr>en_type = ''derivation'', en_inference_type = ''analogical'',
             en_confidence_impact = Some (1 / 2)\<rparr>"
proof -
  have builds: "load_from_tuples parallel_payload = Inr (built parallel_payload)"
    by (rule built_eq) code_simp
  have chain: "build_inference_chain (built parallel_payload) ''pacta-sunt-servanda''
      ''enforce-contract'' = Inr (Some parallel_chain)"
    by code_simp
  have edges: "map (\<lambda>e. (e_key e, ea_confidence_impact (e_attrs e)))
      (filter (parallel ''P1'' ''R1'') (g_edges (graph (built parallel_payload))))
      = [(0, Some (1 / 2)), (1, Some (4 / 5))]"
    by code_simp
  have step: "c_edge_to_next (parallel_chain ! 0) =
      Some \<lparr>en_type = ''derivation'', en_inference_type = ''analogical'',
            en_confidence_impact = Some (1 / 2)\<rparr>"
    by code_simp
  have "0 + 1 < length parallel_chain"
    by code_simp
  from chain_edge_is_first_parallel_edge [OF builds chain this] builds chain edges step
  show ?thesis
    by blast
qed

section \<open>All simple paths\<close>

lemma subseq_concat_map:
  "(\<And>x. x \<in> set xs \<Longrightarrow> subseq (f x) (g x)) \<Longrightarrow>
   subseq (concat (map f xs)) (concat (map g xs))"
  by (induction xs) (auto intro: list_emb_append_mono)

lemma simple_paths_mono:
  "k \<le> k' \<Longrightarrow> subseq (simple_paths G ts k path v) (simple_paths G ts k' path v)"
proof (induction k arbitrary: k' path v)
  case 0
  show ?case
    by (cases k') (auto intro: subseq_rev_drop_many)
next
  case (Suc k)
  then obtain j where j: "k' = Suc j" "k \<le> j"
    by (cases k') simp_all
  have "subseq (concat (map (\<lambda>w. simple_paths G ts k (path @ [v]) w) ws))
               (concat (map (\<lambda>w. simple_paths G ts j (path @ [v]) w) ws))" for ws
    using Suc.IH [OF j(2)] by (intro subseq_concat_map)
  then show ?case
    unfolding j(1) simple_paths.simps by (auto simp only: subseq_append' split: if_splits)
qed

lemma simple_paths_shape:
  "p \<in> set (simple_paths G ts k path v) \<Longrightarrow>
   \<exists>q. p = path @ v # q \<and> length q \<le> k \<and> (distinct (path @ [v]) \<longrightarrow> distinct p) \<and>
       successively (steps_to G) (v # q) \<and> last p \<in> set ts"
proof (induction k arbitrary: path v)
  case 0
  then show ?case
    by (auto split: if_splits)
next
  case (Suc k)
  from Suc.prems consider
    (here) "v \<in> set ts" "p = path @ [v]"
  | (deeper) w where "w \<in> set (successors G v)" "w \<notin> set (path @ [v])"
      "p \<in> set (simple_paths G ts k (path @ [v]) w)"
    by (auto split: if_splits)
  then show ?case
  proof cases
    case here
    then show ?thesis by auto
  next
    case deeper
    from Suc.IH [OF deeper(3)] obtain q where
      q: "p = (path @ [v]) @ w # q" "length q \<le> k"
        "distinct ((path @ [v]) @ [w]) \<longrightarrow> distinct p"
        "successively (steps_to G) (w # q)" "last p \<in> set ts"
      by blast
    have "p = path @ v # (w # q)"
      using q(1) by simp
    moreover have "length (w # q) \<le> Suc k"
      using q(2) by simp
    moreover have "distinct (path @ [v]) \<longrightarrow> distinct p"
      using q(3) deeper(2) by auto
    moreover have "successively (steps_to G) (v # w # q)"
      using q(4) deeper(1) by (simp add: steps_to_def)
    ultimately show ?thesis
      using q(5) by blast
  qed
qed

lemma steps_to_node: "edges_closed G \<Longrightarrow> steps_to G a b \<Longrightarrow> has_node G b"
  using set_edges_from [of G a] by (auto simp: steps_to_def successors_def edges_closed_def)

lemma walk_nodes:
  "successively (steps_to G) (v # q) \<Longrightarrow> edges_closed G \<Longrightarrow> \<forall>n \<in> set q. has_node G n"
  by (induction q arbitrary: v) (auto dest: steps_to_node)

subsection \<open>The detailed paths\<close>

lemma detailed_path_ids: "detailed_path G i path = Inr items \<Longrightarrow> map c_id items = path"
  by (induction path arbitrary: i items) auto

lemma detailed_path_total:
  "\<forall>n \<in> set path. has_node G n \<Longrightarrow> \<exists>items. detailed_path G i path = Inr items"
proof (induction path arbitrary: i)
  case Nil
  show ?case by simp
next
  case (Cons n path)
  obtain d where "node_data_of G n = Inr d"
    using node_data_of_present [of G n] Cons.prems by auto
  moreover obtain items where "detailed_path G (i + 1) path = Inr items"
    using Cons.IH [of "i + 1"] Cons.prems by auto
  ultimately show ?case
    by simp
qed

lemma detailed_paths_ids: "detailed_paths G ps = Inr ds \<Longrightarrow> map (map c_id) ds = ps"
  by (induction ps arbitrary: ds) (auto dest: detailed_path_ids)

lemma detailed_paths_total:
  "\<forall>p \<in> set ps. \<forall>n \<in> set p. has_node G n \<Longrightarrow> \<exists>ds. detailed_paths G ps = Inr ds"
proof (induction ps)
  case Nil
  show ?case by simp
next
  case (Cons p ps)
  obtain d where "detailed_path G 0 p = Inr d"
    using detailed_path_total [of p G 0] Cons.prems by auto
  moreover obtain ds where "detailed_paths G ps = Inr ds"
    using Cons.IH Cons.prems by auto
  ultimately show ?case
    by simp
qed

lemma detailed_paths_subseq:
  "subseq ps ps' \<Longrightarrow> detailed_paths G ps' = Inr ds' \<Longrightarrow>
   \<exists>ds. detailed_paths G ps = Inr ds \<and> subseq ds ds'"
proof (induction ps ps' arbitrary: ds' rule: list_emb.induct)
  case (list_emb_Nil ys)
  show ?case by simp
next
  case (list_emb_Cons xs ys y)
  from list_emb_Cons.prems obtain d ds where
    "detailed_paths G ys = Inr ds" "ds' = d # ds"
    by auto
  with list_emb_Cons.IH [of ds] show ?case
    by auto
next
  case (list_emb_Cons2 x y xs ys)
  from list_emb_Cons2.prems obtain d ds where
    d: "detailed_path G 0 y = Inr d" "detailed_paths G ys = Inr ds" "ds' = d # ds"
    by auto
  with list_emb_Cons2.IH [of ds] list_emb_Cons2.hyps(1) show ?case
    by auto
qed

subsection \<open>On a built graph\<close>

definition paths_within :: "hypergraph \<Rightarrow> string \<Rightarrow> string \<Rightarrow> int \<Rightarrow> string list list" where
  "paths_within q s t k =
     (if 0 \<le> k then simple_paths (graph q) [t] (nat k) [] s else [])"

lemma paths_within_mono: "k \<le> k' \<Longrightarrow> subseq (paths_within q s t k) (paths_within q s t k')"
  by (auto simp: paths_within_def intro: simple_paths_mono)

lemma paths_within_shape:
  assumes "p \<in> set (paths_within q s t k)"
  shows "\<exists>r. p = s # r \<and> int (length r) \<le> k \<and> distinct p \<and>
             successively (steps_to (graph q)) p \<and> last p = t"
proof -
  from assms have k: "0 \<le> k" and "p \<in> set (simple_paths (graph q) [t] (nat k) [] s)"
    by (auto simp: paths_within_def split: if_splits)
  from simple_paths_shape [OF this(2)] k show ?thesis
    by auto
qed

lemma find_all_paths_resolved:
  assumes "truthy (node_index q a)" and "truthy (node_index q b)"
    and "has_node (graph q) (dict_get (node_index q a) [])"
    and "has_node (graph q) (dict_get (node_index q b) [])"
  shows "find_all_paths q a b k =
           detailed_paths (graph q)
             (paths_within q (dict_get (node_index q a) []) (dict_get (node_index q b) []) k)"
  using assms by (simp add: find_all_paths_def all_simple_paths_def paths_within_def Let_def)

lemma find_all_paths_unresolved:
  "\<not> truthy (node_index q a) \<or> \<not> truthy (node_index q b) \<Longrightarrow> find_all_paths q a b k = Inr []"
  by (auto simp: find_all_paths_def Let_def)

text \<open>
  Two principles related in both directions, a cycle, and a rule derived from both of them.
\<close>

definition cyclic_payload :: payload where
  "cyclic_payload =
     payload_of [P1, P2] [R1]
       [blank_hyperedge\<lparr>he_source_node := Some ''pacta-sunt-servanda'',
                        he_target_node := Some ''good-faith''\<rparr>,
        blank_hyperedge\<lparr>he_source_node := Some ''good-faith'',
                        he_target_node := Some ''pacta-sunt-servanda''\<rparr>]
       [blank_hyperedge\<lparr>he_source_nodes := Some [''pacta-sunt-servanda'', ''good-faith''],
                        he_target_node := Some ''R1''\<rparr>]"

text \<open>
  C7. On a built graph \<^verbatim>\<open>find_all_paths\<close> returns for every pair of names and every bound \<open>k\<close>,
  without raising. Every path it returns runs from the resolved start to the resolved end along
  edges of the graph, has at most \<open>k\<close> edges and repeats no node. It returns the empty list when
  a name is unresolved. For every larger bound the paths of bound \<open>k\<close> are returned again,
  unaltered and in the same order, among the paths of the larger bound.
\<close>

theorem find_all_paths_bounded_simple_monotone:
  assumes "load_from_tuples data = Inr q"
  shows "\<exists>ps. find_all_paths q start_principle end_rule k = Inr ps
    \<and> (\<forall>p \<in> set ps.
          p \<noteq> [] \<and> int (length p) - 1 \<le> k \<and> distinct (map c_id p)
          \<and> successively
              (\<lambda>x y. filter (parallel (c_id x) (c_id y)) (g_edges (graph q)) \<noteq> []) p
          \<and> node_index q start_principle = Some (c_id (hd p))
          \<and> node_index q end_rule = Some (c_id (last p)))
    \<and> (\<not> truthy (node_index q start_principle) \<or> \<not> truthy (node_index q end_rule)
        \<longrightarrow> ps = [])
    \<and> (\<forall>k'. k \<le> k' \<longrightarrow>
          (\<exists>ps'. find_all_paths q start_principle end_rule k' = Inr ps' \<and> subseq ps ps'))"
proof (cases "truthy (node_index q start_principle) \<and> truthy (node_index q end_rule)")
  case False
  then have "find_all_paths q start_principle end_rule j = Inr []" for j
    by (intro find_all_paths_unresolved) blast
  then show ?thesis
    by simp
next
  case True
  define s where "s = dict_get (node_index q start_principle) []"
  define t where "t = dict_get (node_index q end_rule) []"
  let ?G = "graph q"
  have closed: "edges_closed ?G" and index: "index_closed q"
    using build_invariants(1,2) [OF assms] by simp_all
  have s: "node_index q start_principle = Some s" and t: "node_index q end_rule = Some t"
    using True truthy_Some unfolding s_def t_def by blast+
  have nodes: "has_node ?G s" "has_node ?G t"
    using index s t by (auto simp: index_closed_def)
  have eq: "find_all_paths q start_principle end_rule j = detailed_paths ?G (paths_within q s t j)"
    for j
    unfolding s_def t_def using True nodes
    by (intro find_all_paths_resolved) (simp_all add: s_def t_def)
  have in_graph: "\<forall>p \<in> set (paths_within q s t j). \<forall>n \<in> set p. has_node ?G n" for j
  proof (intro ballI)
    fix p n
    assume "p \<in> set (paths_within q s t j)" and n: "n \<in> set p"
    from paths_within_shape [OF this(1)] obtain r where
      r: "p = s # r" "successively (steps_to ?G) p"
      by blast
    from walk_nodes [OF r(2) [unfolded r(1)] closed] nodes(1) n r(1) show "has_node ?G n"
      by auto
  qed
  have total: "\<exists>ds. detailed_paths ?G (paths_within q s t j) = Inr ds" for j
    using in_graph [of j] by (rule detailed_paths_total)
  from total [of k] obtain ps where ps: "detailed_paths ?G (paths_within q s t k) = Inr ps"
    by blast
  have ids: "map (map c_id) ps = paths_within q s t k"
    using ps by (rule detailed_paths_ids)
  have props: "p \<noteq> [] \<and> int (length p) - 1 \<le> k \<and> distinct (map c_id p)
      \<and> successively (\<lambda>x y. filter (parallel (c_id x) (c_id y)) (g_edges ?G) \<noteq> []) p
      \<and> node_index q start_principle = Some (c_id (hd p))
      \<and> node_index q end_rule = Some (c_id (last p))"
    if "p \<in> set ps" for p
  proof -
    from that have "map c_id p \<in> set (map (map c_id) ps)"
      by simp
    then have "map c_id p \<in> set (paths_within q s t k)"
      by (simp only: ids)
    from paths_within_shape [OF this] obtain r where
      r: "map c_id p = s # r" "int (length r) \<le> k" "distinct (map c_id p)"
        "successively (steps_to ?G) (map c_id p)" "last (map c_id p) = t"
      by (elim exE conjE)
    from r(1) have nonempty: "p \<noteq> []"
      by auto
    have "length p = Suc (length r)"
      using r(1) by (metis length_map length_Cons)
    with r(2) have bound: "int (length p) - 1 \<le> k"
      by simp
    have "successively (\<lambda>x y. steps_to ?G (c_id x) (c_id y)) p"
      using r(4) by (simp only: successively_map)
    then have walk:
      "successively (\<lambda>x y. filter (parallel (c_id x) (c_id y)) (g_edges ?G) \<noteq> []) p"
      by (rule successively_mono) (rule steps_to_parallel)
    have "c_id (hd p) = s"
      using r(1) nonempty by (metis hd_map list.sel(1))
    moreover have "c_id (last p) = t"
      using r(5) nonempty by (simp add: last_map)
    ultimately show ?thesis
      using nonempty bound r(3) walk s t by simp
  qed
  have mono: "\<exists>ps'. find_all_paths q start_principle end_rule k' = Inr ps' \<and> subseq ps ps'"
    if "k \<le> k'" for k'
  proof -
    from total [of k'] obtain ps' where ps': "detailed_paths ?G (paths_within q s t k') = Inr ps'"
      by blast
    from detailed_paths_subseq [OF paths_within_mono [OF that] ps'] ps
    have "subseq ps ps'"
      by auto
    with ps' eq [of k'] show ?thesis
      by simp
  qed
  have "find_all_paths q start_principle end_rule k = Inr ps"
    using ps eq [of k] by simp
  moreover have "\<not> (\<not> truthy (node_index q start_principle) \<or> \<not> truthy (node_index q end_rule))"
    using True by simp
  ultimately show ?thesis
    using props mono by blast
qed

theorem find_all_paths_bounded_simple_monotone_witness:
  "load_from_tuples cyclic_payload = Inr (built cyclic_payload)
   \<and> map endpoints (g_edges (graph (built cyclic_payload))) =
       [(''P1'', ''P2''), (''P2'', ''P1''), (''P1'', ''R1''), (''P2'', ''R1'')]
   \<and> map_sum id (map (map c_id))
        (find_all_paths (built cyclic_payload) ''pacta-sunt-servanda'' ''enforce-contract'' 1)
       = Inr [[''P1'', ''R1'']]
   \<and> map_sum id (map (map c_id))
        (find_all_paths (built cyclic_payload) ''pacta-sunt-servanda'' ''enforce-contract'' 2)
       = Inr [[''P1'', ''P2'', ''R1''], [''P1'', ''R1'']]
   \<and> find_all_paths (built cyclic_payload) ''pacta-sunt-servanda'' ''no-such-rule'' 5 = Inr []"
proof -
  have builds: "load_from_tuples cyclic_payload = Inr (built cyclic_payload)"
    by (rule built_eq) code_simp
  have edges: "map endpoints (g_edges (graph (built cyclic_payload))) =
      [(''P1'', ''P2''), (''P2'', ''P1''), (''P1'', ''R1''), (''P2'', ''R1'')]"
    by code_simp
  have one: "map_sum id (map (map c_id))
      (find_all_paths (built cyclic_payload) ''pacta-sunt-servanda'' ''enforce-contract'' 1)
      = Inr [[''P1'', ''R1'']]"
    by code_simp
  have two: "map_sum id (map (map c_id))
      (find_all_paths (built cyclic_payload) ''pacta-sunt-servanda'' ''enforce-contract'' 2)
      = Inr [[''P1'', ''P2'', ''R1''], [''P1'', ''R1'']]"
    by code_simp
  have none: "\<not> truthy (node_index (built cyclic_payload) ''no-such-rule'')"
    by code_simp
  from find_all_paths_bounded_simple_monotone
    [OF builds, of "''pacta-sunt-servanda''" "''no-such-rule''" 5] none
  have "find_all_paths (built cyclic_payload) ''pacta-sunt-servanda'' ''no-such-rule'' 5 = Inr []"
    by auto
  with builds edges one two show ?thesis
    by simp
qed

section \<open>Properties of rounding\<close>

lemma round_half_even_bounds:
  "\<lfloor>q\<rfloor> \<le> round_half_even q \<and> round_half_even q \<le> \<lfloor>q\<rfloor> + 1"
  by (simp add: round_half_even_def Let_def)

lemma round_half_even_mono:
  assumes "q \<le> q'"
  shows "round_half_even q \<le> round_half_even q'"
proof (cases "\<lfloor>q\<rfloor> = \<lfloor>q'\<rfloor>")
  case True
  with assms show ?thesis
    by (auto simp: round_half_even_def Let_def)
next
  case False
  with floor_mono [OF assms] have "\<lfloor>q\<rfloor> < \<lfloor>q'\<rfloor>"
    by linarith
  with round_half_even_bounds [of q] round_half_even_bounds [of q'] show ?thesis
    by linarith
qed

lemma round4_mono: "q \<le> q' \<Longrightarrow> round4 q \<le> round4 q'"
  unfolding round4_def
  by (intro divide_right_mono iffD2 [OF of_int_le_iff] round_half_even_mono mult_right_mono) simp_all


section \<open>Properties of the confidence product\<close>

lemma confidence_loop_prod:
  "confidence_loop acc path = acc * prod_list (map step_factor path)"
  by (induction path arbitrary: acc)
     (simp_all add: step_factor_def Let_def mult.assoc split: option.split)

lemma step_factor_unit:
  "unit_factors item \<Longrightarrow> 0 \<le> step_factor item \<and> step_factor item \<le> 1"
  by (auto simp: unit_factors_def step_factor_def mult_le_one split: option.splits)

lemma prod_factors_nonneg:
  "\<forall>item \<in> set path. unit_factors item \<Longrightarrow> 0 \<le> prod_list (map step_factor path)"
  by (induction path) (simp_all add: step_factor_unit)



text \<open>
  C8. When every node confidence and every edge \<^verbatim>\<open>confidence_impact\<close> lies in \<open>[0, 1]\<close>, a longer
  chain never has a larger path confidence: neither when one more item is appended, nor when
  the last item \<open>x\<close> receives its edge to a new last item \<open>y\<close>, as in the chains that
  \<^verbatim>\<open>build_inference_chain\<close> produces.
\<close>

theorem compute_path_confidence_antitone:
  assumes "\<forall>item \<in> set path. unit_factors item"
    and "unit_factors x" and "unit_factors y"
    and "0 \<le> impact" and "impact \<le> 1"
  shows "compute_path_confidence (path @ [y]) \<le> compute_path_confidence path
    \<and> compute_path_confidence
         (path @ [x\<lparr>c_edge_to_next := Some \<lparr>en_type = t, en_inference_type = i,
                                              en_confidence_impact = Some impact\<rparr>\<rparr>, y])
       \<le> compute_path_confidence (path @ [x\<lparr>c_edge_to_next := None\<rparr>])"
proof -
  let ?P = "prod_list (map step_factor path)"
  let ?c = "dict_get (c_confidence x) 1"
  have P: "0 \<le> ?P"
    using assms(1) by (rule prod_factors_nonneg)
  have y: "0 \<le> step_factor y" "step_factor y \<le> 1"
    using step_factor_unit [OF assms(3)] by simp_all
  have c: "0 \<le> ?c" "?c \<le> 1"
    using assms(2) by (simp_all add: unit_factors_def)
  have "?P * step_factor y \<le> ?P * 1"
    using P y by (intro mult_left_mono) simp_all
  then have first: "compute_path_confidence (path @ [y]) \<le> compute_path_confidence path"
    by (simp add: compute_path_confidence_def confidence_loop_prod round4_mono)
  have "impact * step_factor y \<le> 1"
    using assms(4,5) y by (simp add: mult_le_one)
  moreover have "0 \<le> ?P * ?c"
    using P c by simp
  ultimately have "(?P * ?c) * (impact * step_factor y) \<le> (?P * ?c) * 1"
    by (intro mult_left_mono) simp_all
  then have "?P * (?c * impact * step_factor y) \<le> ?P * ?c"
    by (simp add: mult.assoc)
  then have second:
    "compute_path_confidence
       (path @ [x\<lparr>c_edge_to_next := Some \<lparr>en_type = t, en_inference_type = i,
                                            en_confidence_impact = Some impact\<rparr>\<rparr>, y])
     \<le> compute_path_confidence (path @ [x\<lparr>c_edge_to_next := None\<rparr>])"
    by (simp add: compute_path_confidence_def confidence_loop_prod round4_mono step_factor_def
        dict_get_def)
  from first second show ?thesis ..
qed

theorem compute_path_confidence_antitone_witness:
  "unit_factors \<lparr>c_step = 2, c_id = ''R1'', c_name = ''enforce-contract'', c_type = ''rule'',
                   c_level = Some 2, c_confidence = Some (95 / 100), c_edge_to_next = None\<rparr>
   \<and> compute_path_confidence
        ([\<lparr>c_step = 1, c_id = ''P1'', c_name = ''pacta-sunt-servanda'', c_type = ''principle'',
            c_level = Some 1, c_confidence = Some 1,
            c_edge_to_next = Some \<lparr>en_type = ''derivation'', en_inference_type = ''deductive'',
                                    en_confidence_impact = Some (95 / 100)\<rparr>\<rparr>]
         @ [\<lparr>c_step = 3, c_id = ''R2'', c_name = ''award-damages'', c_type = ''rule'',
             c_level = Some 3, c_confidence = Some (9 / 10), c_edge_to_next = None\<rparr>])
      \<le> compute_path_confidence
          [\<lparr>c_step = 1, c_id = ''P1'', c_name = ''pacta-sunt-servanda'', c_type = ''principle'',
            c_level = Some 1, c_confidence = Some 1,
            c_edge_to_next = Some \<lparr>en_type = ''derivation'', en_inference_type = ''deductive'',
                                    en_confidence_impact = Some (95 / 100)\<rparr>\<rparr>]"
  using compute_path_confidence_antitone
    [of "[\<lparr>c_step = 1, c_id = ''P1'', c_name = ''pacta-sunt-servanda'', c_type = ''principle'',
            c_level = Some 1, c_confidence = Some 1,
            c_edge_to_next = Some \<lparr>en_type = ''derivation'', en_inference_type = ''deductive'',
                                    en_confidence_impact = Some (95 / 100)\<rparr>\<rparr>]"
        "\<lparr>c_step = 2, c_id = ''R1'', c_name = ''enforce-contract'', c_type = ''rule'',
          c_level = Some 2, c_confidence = Some (95 / 100), c_edge_to_next = None\<rparr>"
        "\<lparr>c_step = 3, c_id = ''R2'', c_name = ''award-damages'', c_type = ''rule'',
          c_level = Some 3, c_confidence = Some (9 / 10), c_edge_to_next = None\<rparr>"
        "95 / 100" "''derivation''" "''deductive''"]
  by (simp add: unit_factors_def dict_get_def)

end
